theory Spec2Isabelle
  imports Complex_Main "HOL-Library.Log_Nat"
begin

section \<open>JavaScript Number arithmetic\<close>

text \<open>
  The component computes with JavaScript Numbers, that is with IEEE 754 binary64 values.
  A finite Number is modelled by the rational it denotes. Every arithmetic operator
  (\<^verbatim>\<open>+\<close>, \<^verbatim>\<open>-\<close>, \<^verbatim>\<open>*\<close>, \<^verbatim>\<open>/\<close>) and every decimal
  literal yields the exact result rounded to the nearest binary64 value, ties to the even
  significand; \<open>fl\<close> is that rounding. The significand has 53 bits, and below
  \<open>2 powi (- 1022)\<close> the spacing stays at \<open>2 powi (- 1074)\<close> (subnormal numbers).

  Outside the model: NaN and the infinities (the component is given a finite count, and
  none of its operations overflows from one), and the sign of zero (\<open>-0\<close> prints as
  \<open>0\<close> and compares equal to \<open>0\<close>).
\<close>

type_synonym number = rat

definition binade :: "rat \<Rightarrow> int" where
  \<comment> \<open>the exponent \<open>e\<close> with \<open>2 powi e \<le> \<bar>x\<bar> < 2 powi (e + 1)\<close>, for \<open>x \<noteq> 0\<close>\<close>
  "binade x = (let (p, q) = quotient_of \<bar>x\<bar>; k = bitlen p - bitlen q
               in if power_int 2 k \<le> \<bar>x\<bar> then k else k - 1)"

definition quantum :: "rat \<Rightarrow> rat" where
  \<comment> \<open>the spacing of binary64 values around \<open>x\<close>\<close>
  "quantum x = power_int 2 (max (binade x - 52) (- 1074))"

definition rne :: "rat \<Rightarrow> int" where
  \<comment> \<open>nearest integer, a tie to the even one\<close>
  "rne m = (let f = \<lfloor>m\<rfloor>; r = m - of_int f in
            if r < 1/2 then f else if 1/2 < r then f + 1 else if even f then f else f + 1)"

definition fl :: "rat \<Rightarrow> number" where
  "fl x = (if x = 0 then 0 else quantum x * of_int (rne (x / quantum x)))"

definition fadd :: "number \<Rightarrow> number \<Rightarrow> number" where
  "fadd x y = fl (x + y)"

definition fsub :: "number \<Rightarrow> number \<Rightarrow> number" where
  "fsub x y = fl (x - y)"

definition fmul :: "number \<Rightarrow> number \<Rightarrow> number" where
  "fmul x y = fl (x * y)"

definition fdiv :: "number \<Rightarrow> number \<Rightarrow> number" where
  "fdiv x y = fl (x / y)"

definition Math_round :: "number \<Rightarrow> int" where
  \<comment> \<open>\<^verbatim>\<open>Math.round\<close>: the nearest integer, a tie towards plus infinity\<close>
  "Math_round x = \<lfloor>x + 1/2\<rfloor>"

definition Math_floor :: "number \<Rightarrow> int" where
  "Math_floor x = \<lfloor>x\<rfloor>"

datatype js_error = RangeError

definition Array_from_length :: "int \<Rightarrow> js_error + nat list" where
  \<comment> \<open>the indices of \<^verbatim>\<open>Array.from({ length: len })\<close>: a negative length counts as zero,
      a length of \<open>2 ^ 32\<close> or more is refused by the Array constructor\<close>
  "Array_from_length len =
     (if len \<le> 0 then Inr []
      else if 2 ^ 32 \<le> len then Inl RangeError
      else Inr [0 ..< nat len])"

subsection \<open>Properties of the rounding\<close>

lemma rne_mono: "x \<le> y \<Longrightarrow> rne x \<le> rne y"
proof -
  assume xy: "x \<le> y"
  have lo: "\<lfloor>m\<rfloor> \<le> rne m" and hi: "rne m \<le> \<lfloor>m\<rfloor> + 1" for m
    by (auto simp: rne_def Let_def)
  show ?thesis
  proof (cases "\<lfloor>x\<rfloor> = \<lfloor>y\<rfloor>")
    case True
    with xy show ?thesis by (auto simp: rne_def Let_def)
  next
    case False
    with xy have "\<lfloor>x\<rfloor> + 1 \<le> \<lfloor>y\<rfloor>" using floor_mono[OF xy] by linarith
    with lo[of y] hi[of x] show ?thesis by linarith
  qed
qed

lemma rne_of_int [simp]: "rne (of_int n) = n"
  by (simp add: rne_def)

lemma rne_error: "\<bar>of_int (rne m) - m\<bar> \<le> 1/2"
proof -
  have "of_int \<lfloor>m\<rfloor> \<le> m" "m < of_int \<lfloor>m\<rfloor> + 1" by linarith+
  then show ?thesis by (simp add: rne_def Let_def abs_le_iff)
qed

lemma rne_minus: "rne (- m) = - rne m"
proof (cases "m = of_int \<lfloor>m\<rfloor>")
  case True
  then obtain n where n: "m = of_int n" ..
  have "rne (of_int (- n)) = - rne (of_int n)" by (simp only: rne_of_int)
  then show ?thesis by (simp add: n)
next
  case False
  have a: "of_int \<lfloor>m\<rfloor> < m"
  proof (rule order.not_eq_order_implies_strict)
    show "of_int \<lfloor>m\<rfloor> \<noteq> m" using False by (rule not_sym)
    show "of_int \<lfloor>m\<rfloor> \<le> m" by (rule of_int_floor_le)
  qed
  have b: "m < of_int \<lfloor>m\<rfloor> + 1" by linarith
  have fm: "\<lfloor>- m\<rfloor> = - \<lfloor>m\<rfloor> - 1"
    using a b by (intro floor_unique) simp_all
  show ?thesis unfolding rne_def Let_def fm by (auto simp: algebra_simps)
qed

lemma pow2_bitlen:
  assumes "0 < p"
  shows "power_int 2 (bitlen p - 1) \<le> (of_int p :: rat)"
    and "(of_int p :: rat) < power_int 2 (bitlen p)"
proof -
  from bitlen_bounds[OF assms]
  have a: "2 ^ nat (bitlen p - 1) \<le> p" and b: "p < 2 ^ nat (bitlen p)" by auto
  have ge: "1 \<le> bitlen p" using assms by (auto simp: bitlen_alt_def)
  from a have "(of_int (2 ^ nat (bitlen p - 1)) :: rat) \<le> of_int p" by (simp only: of_int_le_iff)
  then show "power_int 2 (bitlen p - 1) \<le> (of_int p :: rat)" using ge by (simp add: power_int_def)
  from b have "(of_int p :: rat) < of_int (2 ^ nat (bitlen p))" by (simp only: of_int_less_iff)
  then show "(of_int p :: rat) < power_int 2 (bitlen p)" using ge by (simp add: power_int_def)
qed

lemma binade_bounds:
  assumes "x \<noteq> 0"
  shows "power_int 2 (binade x) \<le> \<bar>x\<bar>" and "\<bar>x\<bar> < power_int 2 (binade x + 1)"
proof -
  obtain p q where pq: "quotient_of \<bar>x\<bar> = (p, q)" by (cases "quotient_of \<bar>x\<bar>")
  have q: "0 < q" using quotient_of_denom_pos[OF pq] .
  have x: "\<bar>x\<bar> = of_int p / of_int q" using quotient_of_div[OF pq] .
  have Q: "(0::rat) < of_int q" using q by simp
  have "0 < \<bar>x\<bar>" using assms by simp
  then have "0 < (of_int p :: rat) / of_int q" by (simp only: x)
  with Q have p: "0 < p" by (simp add: zero_less_divide_iff)
  define k where "k = bitlen p - bitlen q"
  have e: "binade x = (if power_int 2 k \<le> \<bar>x\<bar> then k else k - 1)"
    by (simp add: binade_def pq k_def Let_def)
  have up: "\<bar>x\<bar> < power_int 2 (k + 1)"
  proof -
    have "(of_int p :: rat) < power_int 2 (bitlen p)" using pow2_bitlen[OF p] by simp
    also have "\<dots> = power_int 2 (k + 1) * power_int 2 (bitlen q - 1)"
      by (simp add: k_def flip: power_int_add)
    also have "\<dots> \<le> power_int 2 (k + 1) * of_int q"
      using pow2_bitlen(1)[OF q] by (intro mult_left_mono) auto
    finally show ?thesis using Q by (simp add: x pos_divide_less_eq)
  qed
  have lo: "power_int 2 (k - 1) \<le> \<bar>x\<bar>"
  proof -
    have "power_int 2 (k - 1) * of_int q \<le> power_int 2 (k - 1) * power_int (2::rat) (bitlen q)"
      using pow2_bitlen(2)[OF q] by (intro mult_left_mono) auto
    also have "\<dots> = power_int 2 (bitlen p - 1)"
      by (simp add: k_def flip: power_int_add)
    also have "\<dots> \<le> of_int p" using pow2_bitlen[OF p] by simp
    finally show ?thesis using Q by (simp add: x pos_le_divide_eq)
  qed
  show "power_int 2 (binade x) \<le> \<bar>x\<bar>" using lo by (simp add: e)
  show "\<bar>x\<bar> < power_int 2 (binade x + 1)" using up by (auto simp add: e not_le)
qed

lemma pow2_mono: "a \<le> b \<Longrightarrow> power_int (2::rat) a \<le> power_int 2 b"
  by (rule power_int_increasing) auto

lemma pow2_less_imp: "power_int (2::rat) a < power_int 2 b \<Longrightarrow> a < b"
  using pow2_mono[of b a] by (cases "a < b") auto

lemma pow2_int: "0 \<le> k \<Longrightarrow> power_int (2::rat) k = of_int (2 ^ nat k)"
  by (simp add: power_int_def)

lemma binade_mono:
  assumes "x \<noteq> 0" and "\<bar>x\<bar> \<le> \<bar>y\<bar>"
  shows "binade x \<le> binade y"
proof -
  have y: "y \<noteq> 0" using assms by auto
  have "power_int (2::rat) (binade x) < power_int 2 (binade y + 1)"
    using binade_bounds(1)[OF assms(1)] binade_bounds(2)[OF y] assms(2) by linarith
  then have "binade x < binade y + 1" by (rule pow2_less_imp)
  then show ?thesis by simp
qed

lemma binade_less:
  assumes "x \<noteq> 0" and "\<bar>x\<bar> < power_int 2 e"
  shows "binade x < e"
proof -
  have "power_int (2::rat) (binade x) < power_int 2 e"
    using binade_bounds(1)[OF assms(1)] assms(2) by linarith
  then show ?thesis by (rule pow2_less_imp)
qed

lemma quantum_pos [simp]: "0 < quantum x"
  by (simp add: quantum_def)

lemma quantum_nz [simp]: "quantum x \<noteq> 0"
  using quantum_pos[of x] by (simp only: less_imp_neq[THEN not_sym] not_False_eq_True)

lemma quantum_minus [simp]: "quantum (- x) = quantum x"
  by (simp add: quantum_def binade_def)

lemma fl_minus: "fl (- x) = - fl x"
  by (simp add: fl_def rne_minus)

lemma fl_zero [simp]: "fl 0 = 0"
  by (simp add: fl_def)

lemma fl_error: "\<bar>fl x - x\<bar> \<le> quantum x / 2"
proof (cases "x = 0")
  case True
  then show ?thesis by (simp add: less_imp_le)
next
  case False
  define q where "q = quantum x"
  have q: "0 < q" by (simp add: q_def)
  have "\<bar>fl x - x\<bar> = \<bar>q * (of_int (rne (x / q)) - x / q)\<bar>"
    using False by (simp add: fl_def q_def algebra_simps)
  also have "\<dots> = q * \<bar>of_int (rne (x / q)) - x / q\<bar>"
    using q by (simp add: abs_mult)
  also have "\<dots> \<le> q * (1/2)"
    using q rne_error[of "x / q"] by (intro mult_left_mono) auto
  finally show ?thesis by (simp add: q_def)
qed

lemma fl_le_grid:
  assumes "x \<le> quantum x * of_int n"
  shows "fl x \<le> quantum x * of_int n"
proof (cases "x = 0")
  case True
  with assms show ?thesis by simp
next
  case False
  have "x / quantum x \<le> of_int n"
    using assms by (simp add: pos_divide_le_eq mult.commute)
  then have "rne (x / quantum x) \<le> n" using rne_mono rne_of_int by metis
  then have "(of_int (rne (x / quantum x)) :: rat) \<le> of_int n" by simp
  then show ?thesis using False by (simp add: fl_def)
qed

lemma fl_ge_grid:
  assumes "quantum x * of_int n \<le> x"
  shows "quantum x * of_int n \<le> fl x"
proof (cases "x = 0")
  case True
  with assms show ?thesis by simp
next
  case False
  have "of_int n \<le> x / quantum x"
    using assms by (simp add: pos_le_divide_eq mult.commute)
  then have "n \<le> rne (x / quantum x)" using rne_mono rne_of_int by metis
  then have "(of_int n :: rat) \<le> of_int (rne (x / quantum x))" by simp
  then show ?thesis using False by (simp add: fl_def)
qed

lemma fl_mono_pos:
  assumes "0 < x" and "x \<le> y"
  shows "fl x \<le> fl y"
proof -
  define ex where "ex = max (binade x - 52) (- 1074)"
  define ey where "ey = max (binade y - 52) (- 1074)"
  have qx: "quantum x = power_int 2 ex" and qy: "quantum y = power_int 2 ey"
    by (simp_all add: quantum_def ex_def ey_def)
  have xn: "x \<noteq> 0" and yn: "y \<noteq> 0" using assms by auto
  have bxy: "binade x \<le> binade y" using assms by (intro binade_mono) auto
  show ?thesis
  proof (cases "ex = ey")
    case True
    then have q: "quantum y = quantum x" by (simp add: qx qy)
    have "x / quantum x \<le> y / quantum x" using assms by (simp add: divide_right_mono less_imp_le)
    then have "(of_int (rne (x / quantum x)) :: rat) \<le> of_int (rne (y / quantum x))"
      using rne_mono by simp
    then show ?thesis using xn yn by (simp add: fl_def q)
  next
    case False
    then have lt: "binade x < binade y" and ey: "ey = binade y - 52" and exy: "ex < ey"
      using bxy by (auto simp: ex_def ey_def max_def split: if_splits)
    define c where "c = power_int (2::rat) (binade y)"
    have "x < power_int 2 (binade x + 1)" using binade_bounds(2)[OF xn] assms by simp
    also have "\<dots> \<le> c" unfolding c_def using lt by (intro pow2_mono) simp
    finally have xc: "x \<le> c" by simp
    have cy: "c \<le> y" using binade_bounds(1)[OF yn] assms by (simp add: c_def)
    have "c = quantum x * power_int 2 (binade y - ex)"
      by (simp add: c_def qx flip: power_int_add)
    also have "power_int (2::rat) (binade y - ex) = of_int (2 ^ nat (binade y - ex))"
      using exy ey by (intro pow2_int) simp
    finally have cx: "c = quantum x * of_int (2 ^ nat (binade y - ex))" .
    have "c = quantum y * power_int 2 (binade y - ey)"
      by (simp add: c_def qy flip: power_int_add)
    also have "power_int (2::rat) (binade y - ey) = of_int (2 ^ nat (binade y - ey))"
      using ey by (intro pow2_int) simp
    finally have cy': "c = quantum y * of_int (2 ^ nat (binade y - ey))" .
    have "fl x \<le> c" using fl_le_grid[of x "2 ^ nat (binade y - ex)"] xc cx by simp
    moreover have "c \<le> fl y" using fl_ge_grid[of y "2 ^ nat (binade y - ey)"] cy cy' by simp
    ultimately show ?thesis by simp
  qed
qed

lemma fl_nonneg: "0 \<le> x \<Longrightarrow> 0 \<le> fl x"
  using fl_ge_grid[of x 0] by simp

lemma fl_nonpos: "x \<le> 0 \<Longrightarrow> fl x \<le> 0"
  using fl_le_grid[of x 0] by simp

lemma fl_mono:
  assumes "x \<le> y"
  shows "fl x \<le> fl y"
proof -
  consider "0 < x" | "x \<le> 0" "0 \<le> y" | "y < 0" by linarith
  then show ?thesis
  proof cases
    case 1
    then show ?thesis using assms by (rule fl_mono_pos)
  next
    case 2
    then show ?thesis using fl_nonneg[of y] fl_nonpos[of x] by simp
  next
    case 3
    then have "fl (- y) \<le> fl (- x)" using assms by (intro fl_mono_pos) auto
    then show ?thesis by (simp add: fl_minus)
  qed
qed

lemma fl_le_const: "x \<le> c \<Longrightarrow> fl c = c \<Longrightarrow> fl x \<le> c"
  using fl_mono[of x c] by simp

lemma fl_ge_const: "c \<le> x \<Longrightarrow> fl c = c \<Longrightarrow> c \<le> fl x"
  using fl_mono[of c x] by simp

lemma fl_error_small:
  assumes "\<bar>x\<bar> < 2"
  shows "\<bar>fl x - x\<bar> \<le> 1 / 2 ^ 53"
proof (cases "x = 0")
  case True
  then show ?thesis by simp
next
  case False
  have "binade x < 1" using assms by (intro binade_less[OF False]) simp
  then have "max (binade x - 52) (- 1074) \<le> - 52" by simp
  then have "quantum x \<le> power_int 2 (- 52)" unfolding quantum_def by (rule pow2_mono)
  then have "quantum x / 2 \<le> 1 / 2 ^ 53" by (simp add: power_int_minus_divide)
  with fl_error[of x] show ?thesis by linarith
qed

lemma fl_exact:
  "fl 1 = 1" "fl (1/4) = 1/4" "fl (1/2) = 1/2" "fl (3/4) = 3/4"
  "fl 10 = 10" "fl 50 = 50" "fl 100 = 100"
  by code_simp+

section \<open>The scene component \<^verbatim>\<open>LungsModel\<close>\<close>

subsection \<open>Breathing animation\<close>

text \<open>
  The \<^verbatim>\<open>useFrame\<close> callback reads the elapsed time and writes the scale and the Y
  rotation of the group behind \<^verbatim>\<open>meshRef\<close>; it does nothing while the ref is null.
  \<^verbatim>\<open>Math.sin\<close> is implementation-approximated in ECMAScript, so the callback takes
  the implementation as a parameter. The literals \<^verbatim>\<open>0.1\<close> and \<^verbatim>\<open>0.2\<close> are the
  Numbers nearest to one tenth and one fifth; \<^verbatim>\<open>0.5\<close> is exact.
\<close>

record group3d =
  scale_x :: number
  scale_y :: number
  scale_z :: number
  rotation_x :: number
  rotation_y :: number
  rotation_z :: number

definition useFrame_callback ::
  "(number \<Rightarrow> number) \<Rightarrow> number \<Rightarrow> group3d option \<Rightarrow> group3d option" where
  "useFrame_callback Math_sin time meshRef =
     (case meshRef of
        None \<Rightarrow> None
      | Some g \<Rightarrow>
          let breatheScale = fadd 1 (fmul (Math_sin (fmul time (1/2))) (fl (1/10)))
          in Some (g\<lparr>scale_x := breatheScale, scale_y := breatheScale, scale_z := breatheScale,
                     rotation_y := fmul (Math_sin (fmul time (fl (1/5)))) (fl (1/10))\<rparr>))"

text \<open>
  A stand-in for the engine's sine, used where a theorem about every \<open>Math_sin\<close> is
  applied to one: the Taylor polynomial of the sine up to the seventh power, within
  \<open>1 / 9!\<close> of the sine on \<open>[-1, 1]\<close>.
\<close>

definition sine_polynomial :: "number \<Rightarrow> number" where
  "sine_polynomial x = x - x ^ 3 / 6 + x ^ 5 / 120 - x ^ 7 / 5040"

subsection \<open>Material changes on the loaded scene\<close>

text \<open>
  The loaded scene is a tree of objects. A material is an object of its own, referred to
  by the meshes that use it, so materials live in a store and a node holds addresses. The
  slot \<^verbatim>\<open>child.material\<close> is empty, one material, or an array of materials. A material
  has a color or not (\<^verbatim>\<open>material.color\<close> is undefined on a material type without
  one, and on an array).

  A color is recorded either by its three components, or as \<open>Hsl h s l\<close>: the color that
  \<^verbatim>\<open>Color.setHSL\<close> builds from the hue \<open>h\<close> in degrees and the saturation \<open>s\<close> and
  lightness \<open>l\<close> in percent, that is from \<open>h / 360\<close>, \<open>s / 100\<close> and \<open>l / 100\<close>.
\<close>

datatype three_color = Rgb number number number | Hsl number number number

text \<open>
  \<^verbatim>\<open>new THREE.Color(`hsl(${h}, 70%, ${l}%)`)\<close>. The template literal writes the two
  Numbers as \<^verbatim>\<open>Number.prototype.toString\<close> does: a negative Number with a minus sign, a
  positive Number below \<open>10\<^sup>-\<^sup>6\<close> or from \<open>10\<^sup>2\<^sup>1\<close> on with an exponent, every other one as
  plain decimal digits. \<^verbatim>\<open>Color.setStyle\<close> reads the components of \<^verbatim>\<open>hsl(...)\<close> with a
  pattern of unsigned decimal numerals, \<^verbatim>\<open>\d*\.?\d+\<close> for each, and hands what it read
  to \<^verbatim>\<open>setHSL\<close>; a string the pattern does not match leaves the new color as the
  constructor made it, white. Reading back the digits that \<^verbatim>\<open>toString\<close> wrote gives the
  same Number.
\<close>

definition plain_decimal :: "number \<Rightarrow> bool" where
  \<comment> \<open>the Number is written as unsigned decimal digits, without sign or exponent\<close>
  "plain_decimal x = (x = 0 \<or> (1 / 10 ^ 6 \<le> x \<and> x < 10 ^ 21))"

definition Color_hsl_style :: "number \<Rightarrow> number \<Rightarrow> three_color" where
  "Color_hsl_style h l =
     (if plain_decimal h \<and> plain_decimal l then Hsl h 70 l else Rgb 1 1 1)"

record material =
  color :: "three_color option"
  opacity :: number
  transparent :: bool

type_synonym addr = nat

type_synonym store = "addr \<rightharpoonup> material"

datatype material_slot = NoMaterial | Single addr | Multi "addr list"

datatype object3d = Object3D (isMesh: bool) (materialSlot: material_slot) (children: "object3d list")

definition fillMaterial :: "number \<Rightarrow> material \<Rightarrow> material" where
  "fillMaterial level m =
     m\<lparr>color := Some (Color_hsl_style (fadd 120 (fmul level 60)) (fadd 40 (fmul level 20))),
       opacity := fadd (fl (4/5)) (fmul level (fl (1/5))),
       transparent := True\<rparr>"

definition applyMaterial :: "number \<Rightarrow> object3d \<Rightarrow> store \<Rightarrow> store" where
  \<comment> \<open>the callback given to \<^verbatim>\<open>scene.traverse\<close>\<close>
  "applyMaterial level child h =
     (if isMesh child then
        (case materialSlot child of
           Single a \<Rightarrow>
             (case h a of
                Some m \<Rightarrow> (if color m \<noteq> None then h(a \<mapsto> fillMaterial level m) else h)
              | None \<Rightarrow> h)
         | _ \<Rightarrow> h)
      else h)"

fun traverse :: "(object3d \<Rightarrow> store \<Rightarrow> store) \<Rightarrow> object3d \<Rightarrow> store \<Rightarrow> store" where
  \<comment> \<open>\<^verbatim>\<open>Object3D.traverse\<close>: the callback on the object, then on each child's subtree\<close>
  "traverse callback (Object3D mesh slot cs) h =
     fold (traverse callback) cs (callback (Object3D mesh slot cs) h)"

definition useEffect_materials :: "number \<Rightarrow> object3d option \<Rightarrow> store \<Rightarrow> store" where
  "useEffect_materials level scene h =
     (case scene of None \<Rightarrow> h | Some s \<Rightarrow> traverse (applyMaterial level) s h)"

fun nodes :: "object3d \<Rightarrow> object3d list" where
  \<comment> \<open>the objects of a scene, in the order \<open>traverse\<close> visits them\<close>
  "nodes (Object3D mesh slot cs) = Object3D mesh slot cs # concat (map nodes cs)"

text \<open>
  The scene comes from \<^verbatim>\<open>useGLTF\<close> and from nowhere else. The loader gives every mesh
  one material, and a material of a type that has a color.
\<close>

definition coloured_single :: "store \<Rightarrow> object3d \<Rightarrow> bool" where
  "coloured_single h n =
     (case materialSlot n of
        Single a \<Rightarrow> (case h a of Some m \<Rightarrow> color m \<noteq> None | None \<Rightarrow> False)
      | _ \<Rightarrow> False)"

definition loaded_scene :: "store \<Rightarrow> object3d \<Rightarrow> bool" where
  "loaded_scene h scene = list_all (\<lambda>n. isMesh n \<longrightarrow> coloured_single h n) (nodes scene)"

subsection \<open>Fill level indicator particles\<close>

text \<open>
  \<^verbatim>\<open>Array.from({ length: Math.floor(fillLevel * 50) }).map((_, i) => ...)\<close>, each
  particle at \<^verbatim>\<open>[(Math.random() - 0.5) * 2, (Math.random() - 0.5) * 1.5,
  (Math.random() - 0.5) * 0.5]\<close> and with the fill level as its emissive intensity.

  \<^verbatim>\<open>Math.random\<close> is modelled by the sequence of Numbers its successive calls return
  during one render of the component: the particle with index \<open>i\<close> makes the calls
  \<open>3 * i\<close>, \<open>3 * i + 1\<close> and \<open>3 * i + 2\<close>, for x, y and z.
\<close>

record particle =
  position :: "number \<times> number \<times> number"
  emissiveIntensity :: number

definition particles :: "(nat \<Rightarrow> number) \<Rightarrow> number \<Rightarrow> js_error + particle list" where
  "particles random level =
     (case Array_from_length (Math_floor (fmul level 50)) of
        Inl e \<Rightarrow> Inl e
      | Inr is \<Rightarrow>
          Inr (map (\<lambda>i.
                 \<lparr>position =
                    (fmul (fsub (random (3 * i)) (1/2)) 2,
                     fmul (fsub (random (3 * i + 1)) (1/2)) (3/2),
                     fmul (fsub (random (3 * i + 2)) (1/2)) (1/2)),
                  emissiveIntensity = level\<rparr>) is))"

section \<open>The component \<^verbatim>\<open>LungsModel3D\<close>\<close>

subsection \<open>Fill level and percentage\<close>

text \<open>
  \<^verbatim>\<open>const fillLevel = Math.min(pledgeCount / 200, 1);\<close>

  \<^verbatim>\<open>const fillPercentage = Math.round(fillLevel * 100);\<close>
\<close>

definition fillLevel :: "number \<Rightarrow> number" where
  "fillLevel pledgeCount = min (fdiv pledgeCount 200) 1"

definition fillPercentage :: "number \<Rightarrow> int" where
  "fillPercentage pledgeCount = Math_round (fmul (fillLevel pledgeCount) 100)"

subsection \<open>Status messages\<close>

text \<open>
  Five sibling blocks, each rendered when its own condition holds. The texts are given
  without the pictograph that opens each of them in the source.
\<close>

record status_div =
  className :: string
  message :: string

definition statusStarting :: status_div where
  "statusStarting =
     \<lparr>className = ''bg-blue-100 text-blue-800 px-4 py-2 rounded-full text-sm'',
      message = ''Just getting started! Keep growing!''\<rparr>"

definition statusGrowing :: status_div where
  "statusGrowing =
     \<lparr>className = ''bg-green-100 text-green-800 px-4 py-2 rounded-full text-sm'',
      message = ''Great progress! Lungs are getting healthier!''\<rparr>"

definition statusHalfway :: status_div where
  "statusHalfway =
     \<lparr>className = ''bg-emerald-100 text-emerald-800 px-4 py-2 rounded-full text-sm'',
      message = ''Halfway there! Amazing commitment!''\<rparr>"

definition statusAlmostFull :: status_div where
  "statusAlmostFull =
     \<lparr>className = ''bg-teal-100 text-teal-800 px-4 py-2 rounded-full text-sm'',
      message = ''Almost at full capacity! Incredible!''\<rparr>"

definition statusComplete :: status_div where
  "statusComplete =
     \<lparr>className = ''bg-yellow-100 text-yellow-800 px-4 py-2 rounded-full text-sm animate-pulse'',
      message = ''Maximum health achieved! Outstanding!''\<rparr>"

definition statusBlocks :: "number \<Rightarrow> (bool \<times> status_div) list" where
  "statusBlocks level =
     [(level < 1/4, statusStarting),
      (1/4 \<le> level \<and> level < 1/2, statusGrowing),
      (1/2 \<le> level \<and> level < 3/4, statusHalfway),
      (3/4 \<le> level \<and> level < 1, statusAlmostFull),
      (1 \<le> level, statusComplete)]"

definition statusMessages :: "number \<Rightarrow> status_div list" where
  "statusMessages level = map snd (filter fst (statusBlocks level))"

subsection \<open>Floating health particles\<close>

text \<open>
  \<^verbatim>\<open>Array.from({ length: Math.floor(fillLevel * 10) }).map((_, i) => ...)\<close>, each
  particle styled with left \<^verbatim>\<open>10 + (i * 8)\<close> percent, top \<^verbatim>\<open>15 + (i * 6)\<close>
  percent, animation delay \<^verbatim>\<open>i * 0.5\<close> seconds and animation duration
  \<^verbatim>\<open>2 + Math.random() * 2\<close> seconds: one call of \<^verbatim>\<open>Math.random\<close> per particle.
\<close>

record floating_particle =
  leftPercent :: number
  topPercent :: number
  animationDelay :: number
  animationDuration :: number

definition floatingParticles :: "(nat \<Rightarrow> number) \<Rightarrow> number \<Rightarrow> js_error + floating_particle list" where
  "floatingParticles random level =
     (case Array_from_length (Math_floor (fmul level 10)) of
        Inl e \<Rightarrow> Inl e
      | Inr is \<Rightarrow>
          Inr (map (\<lambda>i.
                 \<lparr>leftPercent = fadd 10 (fmul (of_nat i) 8),
                  topPercent = fadd 15 (fmul (of_nat i) 6),
                  animationDelay = fmul (of_nat i) (1/2),
                  animationDuration = fadd 2 (fmul (random i) 2)\<rparr>) is))"

subsection \<open>What the component renders\<close>

record overlay =
  captionCount :: number
  captionPercentage :: int
  barWidthPercent :: int
  modelFillLevel :: number
  statusShown :: "status_div list"
  floating :: "floating_particle list"

definition LungsModel3D :: "(nat \<Rightarrow> number) \<Rightarrow> number \<Rightarrow> js_error + overlay" where
  "LungsModel3D random pledgeCount =
     (case floatingParticles random (fillLevel pledgeCount) of
        Inl e \<Rightarrow> Inl e
      | Inr fs \<Rightarrow>
          Inr \<lparr>captionCount = pledgeCount,
               captionPercentage = fillPercentage pledgeCount,
               barWidthPercent = fillPercentage pledgeCount,
               modelFillLevel = fillLevel pledgeCount,
               statusShown = statusMessages (fillLevel pledgeCount),
               floating = fs\<rparr>)"

subsection \<open>The specification's side\<close>

text \<open>The first-match reading of the five conditions, as the specification words it.\<close>

definition tier_spec :: "number \<Rightarrow> status_div" where
  "tier_spec ratio =
     (if ratio < 1/4 then statusStarting
      else if ratio < 1/2 then statusGrowing
      else if ratio < 3/4 then statusHalfway
      else if ratio < 1 then statusAlmostFull
      else statusComplete)"

text \<open>
  The ratio and the percentage of the specification, in exact arithmetic:
  \<open>clamp (count / 200, 0, 1)\<close> and \<open>round (ratio * 100)\<close>, a tie rounded upwards as
  \<^verbatim>\<open>Math.round\<close> does.
\<close>

definition clamp :: "rat \<Rightarrow> rat \<Rightarrow> rat \<Rightarrow> rat" where
  "clamp x lo hi = max lo (min x hi)"

definition exact_percentage :: "nat \<Rightarrow> int" where
  "exact_percentage count = \<lfloor>min (of_nat count / 200) (1 :: rat) * 100 + 1/2\<rfloor>"




subsection \<open>Certificates and error bounds for the rounding\<close>

lemma binade_unique:
  assumes "power_int 2 e \<le> \<bar>x\<bar>" and "\<bar>x\<bar> < power_int 2 (e + 1)"
  shows "binade x = e"
proof -
  have "0 < power_int (2::rat) e" by simp
  with assms(1) have "0 < \<bar>x\<bar>" by linarith
  then have nz: "x \<noteq> 0" by simp
  note b = binade_bounds[OF nz]
  have "power_int (2::rat) e < power_int 2 (binade x + 1)" using assms(1) b(2) by linarith
  then have 1: "e < binade x + 1" by (rule pow2_less_imp)
  have "power_int (2::rat) (binade x) < power_int 2 (e + 1)" using assms(2) b(1) by linarith
  then have 2: "binade x < e + 1" by (rule pow2_less_imp)
  from 1 2 show ?thesis by simp
qed

lemma rne_cert:
  assumes "\<bar>m - of_int n\<bar> < 1/2 \<or> (\<bar>m - of_int n\<bar> = 1/2 \<and> even n)"
  shows "rne m = n"
proof -
  consider (near) "\<bar>m - of_int n\<bar> < 1/2" | (up) "m - of_int n = 1/2" "even n"
    | (down) "of_int n - m = 1/2" "even n"
    using assms by (auto simp: abs_if split: if_splits)
  then show ?thesis
  proof cases
    case near
    then have lo: "of_int n - 1/2 < m" and hi: "m < of_int n + 1/2" by linarith+
    then have f: "\<lfloor>m\<rfloor> = n \<or> \<lfloor>m\<rfloor> = n - 1" by linarith
    then show ?thesis
    proof
      assume a: "\<lfloor>m\<rfloor> = n"
      have "m - of_int n < 1/2" using hi by linarith
      then show ?thesis by (simp add: rne_def a)
    next
      assume a: "\<lfloor>m\<rfloor> = n - 1"
      have "1/2 < m - of_int (n - 1)" using lo by simp
      then show ?thesis by (simp add: rne_def a)
    qed
  next
    case up
    then have a: "\<lfloor>m\<rfloor> = n" by linarith
    show ?thesis using up by (simp add: rne_def a)
  next
    case down
    then have a: "\<lfloor>m\<rfloor> = n - 1" by linarith
    have "m - of_int (n - 1) = 1/2" using down by simp
    then show ?thesis using down(2) by (simp add: rne_def a)
  qed
qed

lemma fl_cert:
  fixes s :: nat
  assumes lo: "2 ^ 52 \<le> \<bar>x\<bar> * 2 ^ s" and hi: "\<bar>x\<bar> * 2 ^ s < 2 ^ 53" and s: "s \<le> 1074"
    and near: "\<bar>x * 2 ^ s - of_int n\<bar> < 1/2 \<or> (\<bar>x * 2 ^ s - of_int n\<bar> = 1/2 \<and> even n)"
  shows "fl x = of_int n / 2 ^ s"
proof -
  have p: "power_int (2::rat) (52 - int s) * 2 ^ s = 2 ^ 52" "power_int (2::rat) (52 - int s + 1) * 2 ^ s = 2 ^ 53"
    by (simp_all add: power_int_diff power_int_add)
  have "power_int 2 (52 - int s) * 2 ^ s \<le> \<bar>x\<bar> * 2 ^ s" using lo by (simp only: p)
  then have 1: "power_int 2 (52 - int s) \<le> \<bar>x\<bar>" by simp
  have "\<bar>x\<bar> * 2 ^ s < power_int 2 (52 - int s + 1) * 2 ^ s" using hi by (simp only: p)
  then have 2: "\<bar>x\<bar> < power_int 2 (52 - int s + 1)" by simp
  have b: "binade x = 52 - int s" using 1 2 by (rule binade_unique)
  have q: "quantum x = 1 / 2 ^ s" using s by (simp add: quantum_def b power_int_minus_divide)
  have "0 < power_int (2::rat) (52 - int s)" by simp
  with 1 have "0 < \<bar>x\<bar>" by linarith
  then have nz: "x \<noteq> 0" by simp
  have "rne (x / quantum x) = n" using near by (intro rne_cert) (simp add: q)
  then show ?thesis using nz by (simp add: fl_def q)
qed

lemma fl_error_below:
  assumes "\<bar>x\<bar> < power_int 2 e" and "- 1021 \<le> e"
  shows "\<bar>fl x - x\<bar> \<le> power_int 2 (e - 54)"
proof (cases "x = 0")
  case True
  then show ?thesis by simp
next
  case False
  have "binade x < e" using False assms(1) by (rule binade_less)
  then have "max (binade x - 52) (- 1074) \<le> e - 53" using assms(2) by simp
  then have "quantum x \<le> power_int 2 (e - 53)" unfolding quantum_def by (rule pow2_mono)
  also have "\<dots> = 2 * power_int 2 (e - 54)"
    using power_int_add[of "2::rat" 1 "e - 54"] by simp
  finally have "quantum x / 2 \<le> power_int 2 (e - 54)" by simp
  with fl_error[of x] show ?thesis by linarith
qed

lemma fl_rel_error:
  assumes "power_int 2 (- 1022) \<le> \<bar>x\<bar>"
  shows "\<bar>fl x - x\<bar> \<le> \<bar>x\<bar> / 2 ^ 53"
proof -
  have "0 < power_int (2::rat) (- 1022)" by (rule zero_less_power_int) simp
  with assms have "0 < \<bar>x\<bar>" by linarith
  then have nz: "x \<noteq> 0" by simp
  have "power_int (2::rat) (- 1022) \<le> \<bar>x\<bar>" by (rule assms)
  also have "\<dots> < power_int 2 (binade x + 1)" by (rule binade_bounds(2)[OF nz])
  finally have "- 1022 < binade x + 1" by (rule pow2_less_imp)
  then have "max (binade x - 52) (- 1074) = binade x - 52" by simp
  then have "quantum x = power_int 2 (binade x) * power_int 2 (- 52)"
    unfolding quantum_def using power_int_add[of "2::rat" "binade x" "- 52"] by simp
  also have "\<dots> \<le> \<bar>x\<bar> * power_int 2 (- 52)"
    using binade_bounds(1)[OF nz] by (intro mult_right_mono) simp_all
  finally have "quantum x / 2 \<le> \<bar>x\<bar> / 2 ^ 53" by (simp add: power_int_minus_divide)
  with fl_error[of x] show ?thesis by linarith
qed

lemma fl_half:
  assumes "fl t = t" and "power_int 2 (- 1000) \<le> \<bar>t\<bar>"
  shows "fl (t / 2) = t / 2"
proof -
  have "0 < power_int (2::rat) (- 1000)" by (rule zero_less_power_int) simp
  with assms(2) have "0 < \<bar>t\<bar>" by linarith
  then have nz: "t \<noteq> 0" by simp
  define b where "b = binade t"
  have "power_int (2::rat) (- 1000) \<le> \<bar>t\<bar>" by (rule assms(2))
  also have "\<dots> < power_int 2 (b + 1)" unfolding b_def by (rule binade_bounds(2)[OF nz])
  finally have "- 1000 < b + 1" by (rule pow2_less_imp)
  then have b: "- 1000 \<le> b" by simp
  have two: "power_int (2::rat) (b - 1) * 2 = power_int 2 b" "power_int (2::rat) b * 2 = power_int 2 (b + 1)"
    using power_int_add[of "2::rat" "b - 1" 1] power_int_add[of "2::rat" b 1] by simp_all
  have "power_int 2 (b - 1) \<le> \<bar>t / 2\<bar>" and "\<bar>t / 2\<bar> < power_int 2 (b - 1 + 1)"
    using binade_bounds[OF nz] two by (simp_all add: b_def)
  then have bh: "binade (t / 2) = b - 1" by (rule binade_unique)
  have qt: "quantum t = power_int 2 (b - 52)" using b by (simp add: quantum_def b_def)
  have "quantum (t / 2) = power_int 2 (b - 53)" using b by (simp add: quantum_def bh)
  also have "\<dots> * 2 = power_int 2 (b - 52)"
    using power_int_add[of "2::rat" "b - 53" 1] by simp
  finally have qh: "quantum (t / 2) * 2 = quantum t" by (simp add: qt)
  then have qh': "quantum (t / 2) = quantum t / 2" by simp
  define n where "n = rne (t / quantum t)"
  have t: "t = quantum t * of_int n" using assms(1) nz by (simp add: fl_def n_def)
  have "t / 2 / quantum (t / 2) = t / quantum t" by (simp add: qh')
  also have "\<dots> = of_int n" using t by (metis nonzero_mult_div_cancel_left quantum_nz)
  finally have "rne (t / 2 / quantum (t / 2)) = n" by (simp only: rne_of_int)
  then have "fl (t / 2) = quantum t / 2 * of_int n" using nz by (simp add: fl_def qh')
  also have "\<dots> = t / 2" using t by simp
  finally show ?thesis .
qed

lemma sin_lipschitz: "\<bar>sin x - sin y\<bar> \<le> \<bar>x - y\<bar>" for x y :: real
proof -
  have "\<bar>sin x - sin y\<bar> = 2 * \<bar>sin ((x - y) / 2)\<bar> * \<bar>cos ((x + y) / 2)\<bar>"
    by (simp add: sin_diff_sin abs_mult)
  also have "\<dots> \<le> 2 * \<bar>(x - y) / 2\<bar> * 1"
    by (intro mult_mono mult_left_mono abs_sin_x_le_abs_x abs_cos_le_one) simp_all
  finally show ?thesis by simp
qed

section \<open>Fill level, percentage and status message\<close>

subsection \<open>Auxiliary facts\<close>

lemma fdiv_200_nonneg: "0 \<le> x \<Longrightarrow> 0 \<le> fdiv x 200"
  by (simp add: fdiv_def fl_nonneg)

lemma fdiv_200_le_one: "x \<le> 200 \<Longrightarrow> fdiv x 200 \<le> 1"
  unfolding fdiv_def by (rule fl_le_const) (simp_all add: fl_exact)

lemma fdiv_200_ge_one: "200 \<le> x \<Longrightarrow> 1 \<le> fdiv x 200"
  unfolding fdiv_def by (rule fl_ge_const) (simp_all add: fl_exact)

lemma fdiv_200_mono: "x \<le> y \<Longrightarrow> fdiv x 200 \<le> fdiv y 200"
  unfolding fdiv_def by (rule fl_mono) (simp add: divide_right_mono)

lemma fdiv_200_strict:
  assumes "0 \<le> x" and "x + 1 \<le> y" and "y \<le> 200"
  shows "fdiv x 200 < fdiv y 200"
proof -
  have "\<bar>x / 200\<bar> < 2" and "\<bar>y / 200\<bar> < 2" using assms by simp_all
  then have "\<bar>fl (x / 200) - x / 200\<bar> \<le> 1 / 2 ^ 53" and "\<bar>fl (y / 200) - y / 200\<bar> \<le> 1 / 2 ^ 53"
    by (simp_all only: fl_error_small)
  moreover have "x / 200 + 1 / 200 \<le> y / 200" using assms(2) by simp
  moreover have "(1::rat) / 2 ^ 53 < 1 / 400" by simp
  ultimately show ?thesis unfolding fdiv_def by linarith
qed

lemma fillLevel_le_one: "fillLevel x \<le> 1"
  by (simp add: fillLevel_def)

lemma fillLevel_nonneg: "0 \<le> x \<Longrightarrow> 0 \<le> fillLevel x"
  by (simp add: fillLevel_def fdiv_200_nonneg)

lemma fillLevel_below: "x \<le> 200 \<Longrightarrow> fillLevel x = fdiv x 200"
  using fdiv_200_le_one[of x] by (simp add: fillLevel_def)

lemma fillLevel_saturated: "200 \<le> x \<Longrightarrow> fillLevel x = 1"
  using fdiv_200_ge_one[of x] by (simp add: fillLevel_def)

lemma fillLevel_mono: "x \<le> y \<Longrightarrow> fillLevel x \<le> fillLevel y"
  using fdiv_200_mono[of x y] by (simp add: fillLevel_def min_le_iff_disj)

lemma fillLevel_threshold:
  fixes c k :: nat
  assumes exact: "fl ((of_nat k + 1) / 200) = t" and below: "fl (of_nat k / 200) < t" and t: "t \<le> 1"
  shows "fillLevel (of_nat c) < t \<longleftrightarrow> c \<le> k"
proof
  assume lt: "fillLevel (of_nat c) < t"
  show "c \<le> k"
  proof (rule ccontr)
    assume "\<not> c \<le> k"
    then have "Suc k \<le> c" by simp
    then have "(of_nat (Suc k) :: rat) \<le> of_nat c" by (simp only: of_nat_le_iff)
    then have "(of_nat k + 1 :: rat) \<le> of_nat c" by simp
    then have "fdiv (of_nat k + 1) 200 \<le> fdiv (of_nat c) 200" by (rule fdiv_200_mono)
    then have "t \<le> fdiv (of_nat c) 200" unfolding fdiv_def exact .
    then have "t \<le> fillLevel (of_nat c)" using t by (simp add: fillLevel_def)
    with lt show False by simp
  qed
next
  assume "c \<le> k"
  then have "(of_nat c :: rat) \<le> of_nat k" by (simp only: of_nat_le_iff)
  then have "fdiv (of_nat c) 200 \<le> fdiv (of_nat k) 200" by (rule fdiv_200_mono)
  then have "fdiv (of_nat c) 200 < t" using below by (simp add: fdiv_def)
  then show "fillLevel (of_nat c) < t" by (simp add: fillLevel_def min_less_iff_disj)
qed

lemma fl_below_breakpoints:
  "fl (49 / 200) < 1/4" "fl (99 / 200) < 1/2" "fl (149 / 200) < 3/4" "fl (199 / 200) < 1"
  by code_simp+

lemma fillLevel_quarter: "fillLevel (of_nat c) < 1/4 \<longleftrightarrow> c < 50"
proof -
  have "fl ((of_nat 49 + 1) / 200) = 1/4" by (simp add: fl_exact)
  moreover have "fl (of_nat 49 / 200) < 1/4" using fl_below_breakpoints by simp
  ultimately have "fillLevel (of_nat c) < 1/4 \<longleftrightarrow> c \<le> 49" by (rule fillLevel_threshold) simp
  then show ?thesis by auto
qed

lemma fillLevel_half: "fillLevel (of_nat c) < 1/2 \<longleftrightarrow> c < 100"
proof -
  have "fl ((of_nat 99 + 1) / 200) = 1/2" by (simp add: fl_exact)
  moreover have "fl (of_nat 99 / 200) < 1/2" using fl_below_breakpoints by simp
  ultimately have "fillLevel (of_nat c) < 1/2 \<longleftrightarrow> c \<le> 99" by (rule fillLevel_threshold) simp
  then show ?thesis by auto
qed

lemma fillLevel_three_quarters: "fillLevel (of_nat c) < 3/4 \<longleftrightarrow> c < 150"
proof -
  have "fl ((of_nat 149 + 1) / 200) = 3/4" by (simp add: fl_exact)
  moreover have "fl (of_nat 149 / 200) < 3/4" using fl_below_breakpoints by simp
  ultimately have "fillLevel (of_nat c) < 3/4 \<longleftrightarrow> c \<le> 149" by (rule fillLevel_threshold) simp
  then show ?thesis by auto
qed

lemma fillLevel_full: "fillLevel (of_nat c) < 1 \<longleftrightarrow> c < 200"
proof -
  have "fl ((of_nat 199 + 1) / 200) = 1" by (simp add: fl_exact)
  moreover have "fl (of_nat 199 / 200) < 1" using fl_below_breakpoints by simp
  ultimately have "fillLevel (of_nat c) < 1 \<longleftrightarrow> c \<le> 199" by (rule fillLevel_threshold) simp
  then show ?thesis by auto
qed

lemma fmul_100_range:
  assumes "0 \<le> l" and "l \<le> 1"
  shows "0 \<le> fmul l 100" and "fmul l 100 \<le> 100"
proof -
  show "0 \<le> fmul l 100" using assms by (simp add: fmul_def fl_nonneg)
  show "fmul l 100 \<le> 100" unfolding fmul_def using assms
    by (intro fl_le_const) (simp_all add: fl_exact)
qed

lemma statusMessages_first_match: "statusMessages r = [tier_spec r]"
  by (simp add: statusMessages_def statusBlocks_def tier_spec_def)

lemma status_conditions_one: "length (filter fst (statusBlocks r)) = 1"
  by (simp add: statusBlocks_def)

lemma status_distinct: "distinct (map snd (statusBlocks r))"
  by (simp add: statusBlocks_def statusStarting_def statusGrowing_def statusHalfway_def
      statusAlmostFull_def statusComplete_def)

lemma tier_spec_count:
  "tier_spec (fillLevel (of_nat c)) =
     (if c < 50 then statusStarting
      else if c < 100 then statusGrowing
      else if c < 150 then statusHalfway
      else if c < 200 then statusAlmostFull
      else statusComplete)"
  unfolding tier_spec_def fillLevel_quarter fillLevel_half fillLevel_three_quarters fillLevel_full
  by (rule refl)


subsection \<open>The rounded quotient and product for the counts 1 to 199\<close>

text \<open>
  Below 200 pledges the fill level and the percentage depend on how the quotient
  \<open>count / 200\<close> and the product with 100 round. Each row of the table gives, for one
  count, the significands and the scales of both, and \<open>cert\<close> checks a row by integer
  and rational comparisons alone: the quotient times \<open>2 ^ s1\<close> lies within a half of
  \<open>n1\<close>, the quotient's value \<open>n1 / 2 ^ s1\<close> times 100 times \<open>2 ^ s2\<close> lies within a
  half of \<open>n2\<close> (at a half, \<open>n2\<close> is even), and \<open>Math.round\<close> takes \<open>n2 / 2 ^ s2\<close> to
  the percentage \<open>p\<close>.
\<close>

definition cert :: "int \<Rightarrow> nat \<Rightarrow> int \<Rightarrow> nat \<Rightarrow> int \<Rightarrow> int \<Rightarrow> bool" where
  "cert c s1 n1 s2 n2 p =
     (let x = (of_int c :: rat) / 200; y = (of_int n1 :: rat) / 2 ^ s1; z = y * 100;
          v = (of_int n2 :: rat) / 2 ^ s2
      in 0 < c \<and> c < 200 \<and> 2 ^ 52 \<le> x * 2 ^ s1 \<and> x * 2 ^ s1 < 2 ^ 53 \<and> s1 \<le> 1074
         \<and> \<bar>x * 2 ^ s1 - of_int n1\<bar> < 1/2
         \<and> 2 ^ 52 \<le> z * 2 ^ s2 \<and> z * 2 ^ s2 < 2 ^ 53 \<and> s2 \<le> 1074
         \<and> (\<bar>z * 2 ^ s2 - of_int n2\<bar> < 1/2 \<or> (\<bar>z * 2 ^ s2 - of_int n2\<bar> = 1/2 \<and> even n2))
         \<and> of_int p \<le> v + 1/2 \<and> v + 1/2 < of_int p + 1
         \<and> ((y = x) = (25 dvd c)))"

definition shown_percentage :: "int \<Rightarrow> int" where
  "shown_percentage c = (c + 1) div 2 - (if c = 29 \<or> c = 57 \<or> c = 113 \<or> c = 115 then 1 else 0)"

definition rounding_table :: "(int \<times> nat \<times> int \<times> nat \<times> int) list" where
  "rounding_table =
  [(1, 60, 5764607523034235, 53, 4503599627370496),
   (2, 59, 5764607523034235, 52, 4503599627370496),
   (3, 59, 8646911284551352, 52, 6755399441055744),
   (4, 58, 5764607523034235, 51, 4503599627370496),
   (5, 58, 7205759403792794, 51, 5629499534213120),
   (6, 58, 8646911284551352, 51, 6755399441055744),
   (7, 57, 5044031582654956, 51, 7881299347898369),
   (8, 57, 5764607523034235, 50, 4503599627370496),
   (9, 57, 6485183463413514, 50, 5066549580791808),
   (10, 57, 7205759403792794, 50, 5629499534213120),
   (11, 57, 7926335344172073, 50, 6192449487634432),
   (12, 57, 8646911284551352, 50, 6755399441055744),
   (13, 56, 4683743612465316, 50, 7318349394477056),
   (14, 56, 5044031582654956, 50, 7881299347898369),
   (15, 56, 5404319552844595, 50, 8444249301319680),
   (16, 56, 5764607523034235, 49, 4503599627370496),
   (17, 56, 6124895493223875, 49, 4785074604081152),
   (18, 56, 6485183463413514, 49, 5066549580791808),
   (19, 56, 6845471433603154, 49, 5348024557502464),
   (20, 56, 7205759403792794, 49, 5629499534213120),
   (21, 56, 7566047373982433, 49, 5910974510923776),
   (22, 56, 7926335344172073, 49, 6192449487634432),
   (23, 56, 8286623314361713, 49, 6473924464345088),
   (24, 56, 8646911284551352, 49, 6755399441055744),
   (25, 55, 4503599627370496, 49, 7036874417766400),
   (26, 55, 4683743612465316, 49, 7318349394477056),
   (27, 55, 4863887597560136, 49, 7599824371187712),
   (28, 55, 5044031582654956, 49, 7881299347898369),
   (29, 55, 5224175567749775, 49, 8162774324609023),
   (30, 55, 5404319552844595, 49, 8444249301319680),
   (31, 55, 5584463537939415, 49, 8725724278030336),
   (32, 55, 5764607523034235, 48, 4503599627370496),
   (33, 55, 5944751508129055, 48, 4644337115725824),
   (34, 55, 6124895493223875, 48, 4785074604081152),
   (35, 55, 6305039478318694, 48, 4925812092436480),
   (36, 55, 6485183463413514, 48, 5066549580791808),
   (37, 55, 6665327448508334, 48, 5207287069147136),
   (38, 55, 6845471433603154, 48, 5348024557502464),
   (39, 55, 7025615418697974, 48, 5488762045857792),
   (40, 55, 7205759403792794, 48, 5629499534213120),
   (41, 55, 7385903388887613, 48, 5770237022568448),
   (42, 55, 7566047373982433, 48, 5910974510923776),
   (43, 55, 7746191359077253, 48, 6051711999279104),
   (44, 55, 7926335344172073, 48, 6192449487634432),
   (45, 55, 8106479329266893, 48, 6333186975989760),
   (46, 55, 8286623314361713, 48, 6473924464345088),
   (47, 55, 8466767299456532, 48, 6614661952700416),
   (48, 55, 8646911284551352, 48, 6755399441055744),
   (49, 55, 8827055269646172, 48, 6896136929411072),
   (50, 54, 4503599627370496, 48, 7036874417766400),
   (51, 54, 4593671619917906, 48, 7177611906121728),
   (52, 54, 4683743612465316, 48, 7318349394477056),
   (53, 54, 4773815605012726, 48, 7459086882832384),
   (54, 54, 4863887597560136, 48, 7599824371187712),
   (55, 54, 4953959590107546, 48, 7740561859543041),
   (56, 54, 5044031582654956, 48, 7881299347898369),
   (57, 54, 5134103575202365, 48, 8022036836253695),
   (58, 54, 5224175567749775, 48, 8162774324609023),
   (59, 54, 5314247560297185, 48, 8303511812964352),
   (60, 54, 5404319552844595, 48, 8444249301319680),
   (61, 54, 5494391545392005, 48, 8584986789675008),
   (62, 54, 5584463537939415, 48, 8725724278030336),
   (63, 54, 5674535530486825, 48, 8866461766385664),
   (64, 54, 5764607523034235, 47, 4503599627370496),
   (65, 54, 5854679515581645, 47, 4573968371548160),
   (66, 54, 5944751508129055, 47, 4644337115725824),
   (67, 54, 6034823500676465, 47, 4714705859903488),
   (68, 54, 6124895493223875, 47, 4785074604081152),
   (69, 54, 6214967485771284, 47, 4855443348258816),
   (70, 54, 6305039478318694, 47, 4925812092436480),
   (71, 54, 6395111470866104, 47, 4996180836614144),
   (72, 54, 6485183463413514, 47, 5066549580791808),
   (73, 54, 6575255455960924, 47, 5136918324969472),
   (74, 54, 6665327448508334, 47, 5207287069147136),
   (75, 54, 6755399441055744, 47, 5277655813324800),
   (76, 54, 6845471433603154, 47, 5348024557502464),
   (77, 54, 6935543426150564, 47, 5418393301680128),
   (78, 54, 7025615418697974, 47, 5488762045857792),
   (79, 54, 7115687411245384, 47, 5559130790035456),
   (80, 54, 7205759403792794, 47, 5629499534213120),
   (81, 54, 7295831396340204, 47, 5699868278390784),
   (82, 54, 7385903388887613, 47, 5770237022568448),
   (83, 54, 7475975381435023, 47, 5840605766746112),
   (84, 54, 7566047373982433, 47, 5910974510923776),
   (85, 54, 7656119366529843, 47, 5981343255101440),
   (86, 54, 7746191359077253, 47, 6051711999279104),
   (87, 54, 7836263351624663, 47, 6122080743456768),
   (88, 54, 7926335344172073, 47, 6192449487634432),
   (89, 54, 8016407336719483, 47, 6262818231812096),
   (90, 54, 8106479329266893, 47, 6333186975989760),
   (91, 54, 8196551321814303, 47, 6403555720167424),
   (92, 54, 8286623314361713, 47, 6473924464345088),
   (93, 54, 8376695306909123, 47, 6544293208522752),
   (94, 54, 8466767299456532, 47, 6614661952700416),
   (95, 54, 8556839292003942, 47, 6685030696878080),
   (96, 54, 8646911284551352, 47, 6755399441055744),
   (97, 54, 8736983277098762, 47, 6825768185233408),
   (98, 54, 8827055269646172, 47, 6896136929411072),
   (99, 54, 8917127262193582, 47, 6966505673588736),
   (100, 53, 4503599627370496, 47, 7036874417766400),
   (101, 53, 4548635623644201, 47, 7107243161944064),
   (102, 53, 4593671619917906, 47, 7177611906121728),
   (103, 53, 4638707616191611, 47, 7247980650299392),
   (104, 53, 4683743612465316, 47, 7318349394477056),
   (105, 53, 4728779608739021, 47, 7388718138654720),
   (106, 53, 4773815605012726, 47, 7459086882832384),
   (107, 53, 4818851601286431, 47, 7529455627010048),
   (108, 53, 4863887597560136, 47, 7599824371187712),
   (109, 53, 4908923593833841, 47, 7670193115365377),
   (110, 53, 4953959590107546, 47, 7740561859543041),
   (111, 53, 4998995586381251, 47, 7810930603720705),
   (112, 53, 5044031582654956, 47, 7881299347898369),
   (113, 53, 5089067578928660, 47, 7951668092076031),
   (114, 53, 5134103575202365, 47, 8022036836253695),
   (115, 53, 5179139571476070, 47, 8092405580431359),
   (116, 53, 5224175567749775, 47, 8162774324609023),
   (117, 53, 5269211564023480, 47, 8233143068786688),
   (118, 53, 5314247560297185, 47, 8303511812964352),
   (119, 53, 5359283556570890, 47, 8373880557142016),
   (120, 53, 5404319552844595, 47, 8444249301319680),
   (121, 53, 5449355549118300, 47, 8514618045497344),
   (122, 53, 5494391545392005, 47, 8584986789675008),
   (123, 53, 5539427541665710, 47, 8655355533852672),
   (124, 53, 5584463537939415, 47, 8725724278030336),
   (125, 53, 5629499534213120, 47, 8796093022208000),
   (126, 53, 5674535530486825, 47, 8866461766385664),
   (127, 53, 5719571526760530, 47, 8936830510563328),
   (128, 53, 5764607523034235, 46, 4503599627370496),
   (129, 53, 5809643519307940, 46, 4538783999459328),
   (130, 53, 5854679515581645, 46, 4573968371548160),
   (131, 53, 5899715511855350, 46, 4609152743636992),
   (132, 53, 5944751508129055, 46, 4644337115725824),
   (133, 53, 5989787504402760, 46, 4679521487814656),
   (134, 53, 6034823500676465, 46, 4714705859903488),
   (135, 53, 6079859496950170, 46, 4749890231992320),
   (136, 53, 6124895493223875, 46, 4785074604081152),
   (137, 53, 6169931489497580, 46, 4820258976169984),
   (138, 53, 6214967485771284, 46, 4855443348258816),
   (139, 53, 6260003482044989, 46, 4890627720347648),
   (140, 53, 6305039478318694, 46, 4925812092436480),
   (141, 53, 6350075474592399, 46, 4960996464525312),
   (142, 53, 6395111470866104, 46, 4996180836614144),
   (143, 53, 6440147467139809, 46, 5031365208702976),
   (144, 53, 6485183463413514, 46, 5066549580791808),
   (145, 53, 6530219459687219, 46, 5101733952880640),
   (146, 53, 6575255455960924, 46, 5136918324969472),
   (147, 53, 6620291452234629, 46, 5172102697058304),
   (148, 53, 6665327448508334, 46, 5207287069147136),
   (149, 53, 6710363444782039, 46, 5242471441235968),
   (150, 53, 6755399441055744, 46, 5277655813324800),
   (151, 53, 6800435437329449, 46, 5312840185413632),
   (152, 53, 6845471433603154, 46, 5348024557502464),
   (153, 53, 6890507429876859, 46, 5383208929591296),
   (154, 53, 6935543426150564, 46, 5418393301680128),
   (155, 53, 6980579422424269, 46, 5453577673768960),
   (156, 53, 7025615418697974, 46, 5488762045857792),
   (157, 53, 7070651414971679, 46, 5523946417946624),
   (158, 53, 7115687411245384, 46, 5559130790035456),
   (159, 53, 7160723407519089, 46, 5594315162124288),
   (160, 53, 7205759403792794, 46, 5629499534213120),
   (161, 53, 7250795400066499, 46, 5664683906301952),
   (162, 53, 7295831396340204, 46, 5699868278390784),
   (163, 53, 7340867392613908, 46, 5735052650479616),
   (164, 53, 7385903388887613, 46, 5770237022568448),
   (165, 53, 7430939385161318, 46, 5805421394657280),
   (166, 53, 7475975381435023, 46, 5840605766746112),
   (167, 53, 7521011377708728, 46, 5875790138834944),
   (168, 53, 7566047373982433, 46, 5910974510923776),
   (169, 53, 7611083370256138, 46, 5946158883012608),
   (170, 53, 7656119366529843, 46, 5981343255101440),
   (171, 53, 7701155362803548, 46, 6016527627190272),
   (172, 53, 7746191359077253, 46, 6051711999279104),
   (173, 53, 7791227355350958, 46, 6086896371367936),
   (174, 53, 7836263351624663, 46, 6122080743456768),
   (175, 53, 7881299347898368, 46, 6157265115545600),
   (176, 53, 7926335344172073, 46, 6192449487634432),
   (177, 53, 7971371340445778, 46, 6227633859723264),
   (178, 53, 8016407336719483, 46, 6262818231812096),
   (179, 53, 8061443332993188, 46, 6298002603900928),
   (180, 53, 8106479329266893, 46, 6333186975989760),
   (181, 53, 8151515325540598, 46, 6368371348078592),
   (182, 53, 8196551321814303, 46, 6403555720167424),
   (183, 53, 8241587318088008, 46, 6438740092256256),
   (184, 53, 8286623314361713, 46, 6473924464345088),
   (185, 53, 8331659310635418, 46, 6509108836433920),
   (186, 53, 8376695306909123, 46, 6544293208522752),
   (187, 53, 8421731303182828, 46, 6579477580611584),
   (188, 53, 8466767299456532, 46, 6614661952700416),
   (189, 53, 8511803295730237, 46, 6649846324789248),
   (190, 53, 8556839292003942, 46, 6685030696878080),
   (191, 53, 8601875288277647, 46, 6720215068966912),
   (192, 53, 8646911284551352, 46, 6755399441055744),
   (193, 53, 8691947280825057, 46, 6790583813144576),
   (194, 53, 8736983277098762, 46, 6825768185233408),
   (195, 53, 8782019273372467, 46, 6860952557322240),
   (196, 53, 8827055269646172, 46, 6896136929411072),
   (197, 53, 8872091265919877, 46, 6931321301499904),
   (198, 53, 8917127262193582, 46, 6966505673588736),
   (199, 53, 8962163258467287, 46, 7001690045677568)]"

lemma rounding_table_cert:
  "list_all (\<lambda>(c, s1, n1, s2, n2). cert c s1 n1 s2 n2 (shown_percentage c)) rounding_table"
  unfolding rounding_table_def by (simp add: cert_def shown_percentage_def)

lemma rounding_table_counts: "map fst rounding_table = [1..199]"
  unfolding rounding_table_def by (subst upto.simps) simp

lemma cert_sound:
  assumes "cert c s1 n1 s2 n2 p"
  shows "fillLevel (of_int c) = of_int n1 / 2 ^ s1"
    and "fillPercentage (of_int c) = p"
    and "(fillLevel (of_int c) = of_int c / 200) = (25 dvd c)"
proof -
  define x where "x = (of_int c :: rat) / 200"
  define y where "y = (of_int n1 :: rat) / 2 ^ s1"
  define v where "v = (of_int n2 :: rat) / 2 ^ s2"
  from assms have c: "0 < c" "c < 200"
    and x1: "2 ^ 52 \<le> x * 2 ^ s1" "x * 2 ^ s1 < 2 ^ 53" "s1 \<le> 1074" "\<bar>x * 2 ^ s1 - of_int n1\<bar> < 1/2"
    and z1: "2 ^ 52 \<le> y * 100 * 2 ^ s2" "y * 100 * 2 ^ s2 < 2 ^ 53" "s2 \<le> 1074"
      "\<bar>y * 100 * 2 ^ s2 - of_int n2\<bar> < 1/2 \<or> (\<bar>y * 100 * 2 ^ s2 - of_int n2\<bar> = 1/2 \<and> even n2)"
    and p: "of_int p \<le> v + 1/2" "v + 1/2 < of_int p + 1"
    and e: "(y = x) = (25 dvd c)"
    unfolding cert_def Let_def x_def y_def v_def by blast+
  have xpos: "0 < x" using c by (simp add: x_def)
  have "fl x = y" unfolding y_def using x1 xpos by (intro fl_cert) simp_all
  then have fx: "fdiv (of_int c) 200 = y" by (simp add: fdiv_def x_def)
  have "(of_int c :: rat) \<le> 200" using c by simp
  then have lvl: "fillLevel (of_int c) = y" by (simp add: fillLevel_below fx)
  then show "fillLevel (of_int c) = of_int n1 / 2 ^ s1" by (simp add: y_def)
  have "0 < y * 100 * 2 ^ s2" using z1(1) by (rule order.strict_trans2[rotated]) simp
  then have ypos: "0 < y * 100" by (simp add: zero_less_mult_iff)
  have "fl (y * 100) = v" unfolding v_def using z1 ypos by (intro fl_cert) simp_all
  then have "fmul (fillLevel (of_int c)) 100 = v" by (simp add: fmul_def lvl)
  then show "fillPercentage (of_int c) = p"
    unfolding fillPercentage_def Math_round_def using p by (simp add: floor_unique)
  show "(fillLevel (of_int c) = of_int c / 200) = (25 dvd c)" using e by (simp add: lvl x_def)
qed

lemma below_200:
  fixes c :: int
  assumes "0 < c" and "c < 200"
  shows "fillPercentage (of_int c) = shown_percentage c"
    and "(fillLevel (of_int c) = of_int c / 200) = (25 dvd c)"
proof -
  have "c \<in> set [1..199]" using assms by simp
  then have "c \<in> fst ` set rounding_table" by (simp only: rounding_table_counts[symmetric] set_map)
  then obtain s1 n1 s2 n2 where "(c, s1, n1, s2, n2) \<in> set rounding_table" by force
  with rounding_table_cert have "cert c s1 n1 s2 n2 (shown_percentage c)"
    by (auto simp: list_all_iff)
  from cert_sound[OF this]
  show "fillPercentage (of_int c) = shown_percentage c"
    and "(fillLevel (of_int c) = of_int c / 200) = (25 dvd c)" by simp_all
qed

subsection \<open>The fill level\<close>

lemma fdiv_200_accuracy:
  assumes "0 \<le> x" and "x \<le> 200"
  shows "\<bar>fdiv x 200 - x / 200\<bar> \<le> 1 / 2 ^ 53"
  unfolding fdiv_def using assms by (intro fl_error_small) simp

lemma fillLevel_exact_iff:
  fixes count :: nat
  shows "(fillLevel (of_nat count) = min (of_nat count / 200) 1) = (25 dvd count \<or> 200 \<le> count)"
proof -
  consider "count = 0" | "0 < count" "count < 200" | "200 \<le> count" by linarith
  then show ?thesis
  proof cases
    case 1
    then show ?thesis by (simp add: fillLevel_def fdiv_def)
  next
    case 2
    then have "(fillLevel (of_int (int count)) = of_int (int count) / 200) = (25 dvd int count)"
      by (intro below_200) simp_all
    moreover have "(25 dvd int count) = (25 dvd count)" by presburger
    moreover have "min (of_nat count / 200) (1::rat) = of_nat count / 200" using 2 by simp
    ultimately show ?thesis using 2 by simp
  next
    case 3
    then have "(200::rat) \<le> of_nat count" by simp
    then show ?thesis using 3 by (simp add: fillLevel_saturated)
  qed
qed

text \<open>
  C1. For every non-negative integer pledge count the fill level is the quotient
  \<open>count / 200\<close> clamped to the interval from 0 to 1, which is the minimum of the
  quotient and 1: the quotient below 200 and exactly 1 from 200 on. The quotient is a
  binary64 Number, so the equality with the rational \<open>count / 200\<close> is up to its rounding
  to the nearest Number: the fill level lies within \<open>2\<^sup>-\<^sup>5\<^sup>3\<close> of
  \<open>clamp (count / 200) 0 1\<close> and equals it at every multiple of 25.
\<close>

theorem fillLevel_is_clamped_quotient:
  fixes count k :: nat
  shows "fillLevel (of_nat count) = max 0 (min (fdiv (of_nat count) 200) 1)
       \<and> fillLevel (of_nat count) = (if count < 200 then fdiv (of_nat count) 200 else 1)
       \<and> clamp (of_nat count / 200) 0 1 = min (of_nat count / 200) 1
       \<and> \<bar>fillLevel (of_nat count) - clamp (of_nat count / 200) 0 1\<bar> \<le> 1 / 2 ^ 53
       \<and> fillLevel (of_nat (25 * k)) = clamp (of_nat (25 * k) / 200) 0 1"
proof -
  have nonneg: "0 \<le> fillLevel (of_nat count)" by (rule fillLevel_nonneg) simp
  have a: "fillLevel (of_nat count) = max 0 (min (fdiv (of_nat count) 200) 1)"
    using nonneg by (simp add: fillLevel_def)
  have b: "fillLevel (of_nat count) = (if count < 200 then fdiv (of_nat count) 200 else 1)"
  proof (cases "count < 200")
    case True
    then have "(of_nat count :: rat) \<le> 200" by simp
    then show ?thesis using True by (simp add: fillLevel_below)
  next
    case False
    then have "(200 :: rat) \<le> of_nat count" by simp
    then show ?thesis using False by (simp add: fillLevel_saturated)
  qed
  have cl: "clamp (of_nat n / 200) 0 1 = min (of_nat n / 200) 1" for n :: nat
    by (simp add: clamp_def)
  have c: "\<bar>fillLevel (of_nat count) - clamp (of_nat count / 200) 0 1\<bar> \<le> 1 / 2 ^ 53"
  proof (cases "count < 200")
    case True
    then have le: "(of_nat count :: rat) \<le> 200" by simp
    then have "min (of_nat count / 200) (1 :: rat) = of_nat count / 200" by simp
    then show ?thesis using fdiv_200_accuracy[OF _ le] by (simp add: cl fillLevel_below le)
  next
    case False
    then have "(200 :: rat) \<le> of_nat count" by simp
    then show ?thesis by (simp add: cl fillLevel_saturated)
  qed
  have e: "fillLevel (of_nat (25 * k)) = clamp (of_nat (25 * k) / 200) 0 1"
    unfolding cl using fillLevel_exact_iff[of "25 * k"] by simp
  show ?thesis by (intro conjI a b cl c e)
qed

text \<open>
  Equality with the rational quotient holds at the multiples of 25 and from 200 on, and
  at no other count: one two-hundredth is not a binary fraction.
\<close>

lemma fillLevel_1_inexact: "fillLevel 1 \<noteq> 1 / 200"
  using fillLevel_exact_iff[of 1] by simp

subsection \<open>Monotonicity\<close>

text \<open>
  C9. The fill level never decreases when the pledge count grows, it strictly increases
  as long as the counts stay at or below 200, and it is constant at 1 from 200 on.
\<close>

theorem fillLevel_monotone:
  fixes a b :: nat
  shows "(a \<le> b \<longrightarrow> fillLevel (of_nat a) \<le> fillLevel (of_nat b))
       \<and> (a < b \<and> b \<le> 200 \<longrightarrow> fillLevel (of_nat a) < fillLevel (of_nat b))
       \<and> (200 \<le> a \<and> 200 \<le> b \<longrightarrow> fillLevel (of_nat a) = 1 \<and> fillLevel (of_nat b) = 1
            \<and> fillLevel (of_nat a) = fillLevel (of_nat b))"
proof (intro conjI impI)
  assume "a \<le> b"
  then have "(of_nat a :: rat) \<le> of_nat b" by simp
  then show "fillLevel (of_nat a) \<le> fillLevel (of_nat b)" by (rule fillLevel_mono)
next
  assume ab: "a < b \<and> b \<le> 200"
  then have "Suc a \<le> b" by simp
  then have "(of_nat (Suc a) :: rat) \<le> of_nat b" by (simp only: of_nat_le_iff)
  then have gap: "(of_nat a :: rat) + 1 \<le> of_nat b" by simp
  have le_b: "(of_nat b :: rat) \<le> 200" and le_a: "(of_nat a :: rat) \<le> 200" using ab by simp_all
  have fa: "fillLevel (of_nat a) = fdiv (of_nat a) 200" using le_a by (rule fillLevel_below)
  have fb: "fillLevel (of_nat b) = fdiv (of_nat b) 200" using le_b by (rule fillLevel_below)
  have "fdiv (of_nat a) 200 < fdiv (of_nat b) 200" using gap le_b by (intro fdiv_200_strict) simp_all
  then show "fillLevel (of_nat a) < fillLevel (of_nat b)" unfolding fa fb .
next
  assume s: "200 \<le> a \<and> 200 \<le> b"
  then have "(200 :: rat) \<le> of_nat a" and "(200 :: rat) \<le> of_nat b" by simp_all
  then have "fillLevel (of_nat a) = 1" and "fillLevel (of_nat b) = 1"
    by (simp_all add: fillLevel_saturated)
  then show "fillLevel (of_nat a) = 1" "fillLevel (of_nat b) = 1"
    "fillLevel (of_nat a) = fillLevel (of_nat b)" by simp_all
qed

theorem fillLevel_monotone_witness:
  "fillLevel 29 \<le> fillLevel 30 \<and> fillLevel 29 < fillLevel 30
   \<and> fillLevel 200 = 1 \<and> fillLevel 500 = 1"
  using fillLevel_monotone[of 29 30] fillLevel_monotone[of 200 500] by simp

subsection \<open>The percentage\<close>

lemma floor_halves: "\<lfloor>(201 :: rat) / 2\<rfloor> = 100" "\<lfloor>(1 :: rat) / 2\<rfloor> = 0"
  by (rule floor_unique; simp)+

lemma exact_percentage_closed:
  fixes count :: nat
  shows "exact_percentage count = (if count < 200 then (int count + 1) div 2 else 100)"
proof (cases "count < 200")
  case True
  then have "min (of_nat count / 200) (1 :: rat) * 100 + 1/2 = of_int (int count + 1) / of_int 2"
    by simp
  then have "exact_percentage count = \<lfloor>(of_int (int count + 1) :: rat) / of_int 2\<rfloor>"
    by (simp only: exact_percentage_def)
  then show ?thesis using True by (simp only: floor_divide_of_int_eq if_True)
next
  case False
  then have "min (of_nat count / 200) (1 :: rat) = 1" by simp
  then show ?thesis using False by (simp add: exact_percentage_def floor_halves)
qed

lemma fillPercentage_saturated: "200 \<le> x \<Longrightarrow> fillPercentage x = 100"
  by (simp add: fillPercentage_def fillLevel_saturated fmul_def fl_exact Math_round_def floor_halves)

lemma fillPercentage_count:
  fixes count :: nat
  shows "fillPercentage (of_nat count) =
           (if count < 200 then shown_percentage (int count) else 100)"
proof -
  consider "count = 0" | "0 < count" "count < 200" | "200 \<le> count" by linarith
  then show ?thesis
  proof cases
    case 1
    then show ?thesis
      by (simp add: fillPercentage_def fillLevel_def fdiv_def fmul_def Math_round_def
          shown_percentage_def floor_halves)
  next
    case 2
    then have "fillPercentage (of_int (int count)) = shown_percentage (int count)"
      by (intro below_200) simp_all
    then show ?thesis using 2 by simp
  next
    case 3
    then have "(200::rat) \<le> of_nat count" by simp
    then show ?thesis using 3 by (simp add: fillPercentage_saturated)
  qed
qed

text \<open>
  C3, as the claim states it, fails at 29 pledges. The ratio times 100 is 14.5 and
  rounds to 15, but the component displays 14: the quotient \<open>29 / 200\<close> rounds to the
  Number just below 0.145, and its product with 100 to a Number below 14.5. No other
  rule for a tie saves the claim: at 1 pledge the ratio times 100 is 0.5 and the
  component displays 1.
\<close>

theorem percentage_at_29_is_14:
  "fillPercentage 29 = 14 \<and> exact_percentage 29 = 15
   \<and> min (29 / 200) 1 * 100 = (14 + 1/2 :: rat)
   \<and> fillPercentage 1 = 1 \<and> min (1 / 200) 1 * 100 = (0 + 1/2 :: rat)"
  using fillPercentage_count[of 29] fillPercentage_count[of 1] exact_percentage_closed[of 29]
  by (simp add: shown_percentage_def)

text \<open>
  C3, amended. For every non-negative integer pledge count the displayed percentage is
  \<open>Math.round\<close> of the binary64 product of the fill level and 100, and it lies between
  0 and 100. It equals \<open>round (ratio * 100)\<close> computed exactly, which is
  \<open>(count + 1) div 2\<close> below 200 and 100 from 200 on, at every count but 29, 57, 113 and
  115, where it is one less.
\<close>

theorem fillPercentage_by_count:
  fixes count :: nat
  shows "fillPercentage (of_nat count) = Math_round (fmul (fillLevel (of_nat count)) 100)
       \<and> 0 \<le> fillPercentage (of_nat count) \<and> fillPercentage (of_nat count) \<le> 100
       \<and> fillPercentage (of_nat count) =
           exact_percentage count
             - (if count = 29 \<or> count = 57 \<or> count = 113 \<or> count = 115 then 1 else 0)
       \<and> exact_percentage count = (if count < 200 then (int count + 1) div 2 else 100)"
proof -
  have "0 \<le> fillLevel (of_nat count)" by (rule fillLevel_nonneg) simp
  from fmul_100_range[OF this fillLevel_le_one]
  have "0 \<le> fmul (fillLevel (of_nat count)) 100" and "fmul (fillLevel (of_nat count)) 100 \<le> 100" .
  then have "0 \<le> Math_round (fmul (fillLevel (of_nat count)) 100)"
    and "Math_round (fmul (fillLevel (of_nat count)) 100) \<le> 100"
    unfolding Math_round_def by linarith+
  then have range: "0 \<le> fillPercentage (of_nat count)" "fillPercentage (of_nat count) \<le> 100"
    by (simp_all add: fillPercentage_def)
  have eq: "fillPercentage (of_nat count) =
           exact_percentage count
             - (if count = 29 \<or> count = 57 \<or> count = 113 \<or> count = 115 then 1 else 0)"
  proof (cases "count < 200")
    case True
    have "(int count = 29) = (count = 29)" "(int count = 57) = (count = 57)"
      "(int count = 113) = (count = 113)" "(int count = 115) = (count = 115)" by linarith+
    then show ?thesis
      unfolding fillPercentage_count exact_percentage_closed shown_percentage_def
      using True by (simp only: if_True)
  next
    case False
    then have "\<not> (count = 29 \<or> count = 57 \<or> count = 113 \<or> count = 115)" by linarith
    then show ?thesis
      unfolding fillPercentage_count exact_percentage_closed using False
      by (simp only: if_False diff_0_right)
  qed
  have code: "fillPercentage (of_nat count) = Math_round (fmul (fillLevel (of_nat count)) 100)"
    by (simp only: fillPercentage_def)
  show ?thesis by (intro conjI code range eq exact_percentage_closed)
qed

lemma fillPercentage_samples:
  "fillPercentage 0 = 0" "fillPercentage 1 = 1" "fillPercentage 29 = 14"
  "fillPercentage 100 = 50" "fillPercentage 199 = 100" "fillPercentage 200 = 100"
  using fillPercentage_count[of 0] fillPercentage_count[of 1] fillPercentage_count[of 29]
    fillPercentage_count[of 100] fillPercentage_count[of 199] fillPercentage_count[of 200]
  by (simp_all add: shown_percentage_def)

subsection \<open>The status message\<close>

text \<open>
  C2. The message shown is a first-match step function of the fill level with the
  breakpoints 1/4, 1/2, 3/4 and 1, each interval closed below and open above. In pledge
  counts the breakpoints are 50, 100, 150 and 200; in particular the counts 0, 50, 100,
  150, 200 and 500 show the starting, growing, halfway, almost-full, complete and again
  the complete message.
\<close>

theorem status_is_first_match_step:
  fixes count :: nat
  shows "statusMessages ratio = [tier_spec ratio]
       \<and> statusMessages (fillLevel (of_nat count)) =
           [if count < 50 then statusStarting
            else if count < 100 then statusGrowing
            else if count < 150 then statusHalfway
            else if count < 200 then statusAlmostFull
            else statusComplete]
       \<and> statusMessages (fillLevel 0) = [statusStarting]
       \<and> statusMessages (fillLevel 50) = [statusGrowing]
       \<and> statusMessages (fillLevel 100) = [statusHalfway]
       \<and> statusMessages (fillLevel 150) = [statusAlmostFull]
       \<and> statusMessages (fillLevel 200) = [statusComplete]
       \<and> statusMessages (fillLevel 500) = [statusComplete]"
proof -
  have count: "statusMessages (fillLevel (of_nat c)) =
           [if c < 50 then statusStarting
            else if c < 100 then statusGrowing
            else if c < 150 then statusHalfway
            else if c < 200 then statusAlmostFull
            else statusComplete]" for c :: nat
    by (simp only: statusMessages_first_match tier_spec_count)
  show ?thesis
    using count[of count] count[of 0] count[of 50] count[of 100] count[of 150] count[of 200]
      count[of 500]
    by (simp add: statusMessages_first_match)
qed

text \<open>
  C4. For every non-negative integer pledge count exactly one of the five conditions on
  the fill level holds, so exactly one of the five (pairwise different) status messages
  is rendered. The five conditions are exclusive and exhaustive on every fill ratio.
\<close>

theorem exactly_one_status_message:
  fixes count :: nat
  shows "length (filter fst (statusBlocks (fillLevel (of_nat count)))) = 1
       \<and> length (statusMessages (fillLevel (of_nat count))) = 1
       \<and> length (statusBlocks (fillLevel (of_nat count))) = 5
       \<and> distinct (map snd (statusBlocks (fillLevel (of_nat count))))
       \<and> length (filter fst (statusBlocks ratio)) = 1"
  by (simp add: status_conditions_one status_distinct statusMessages_first_match)
    (simp add: statusBlocks_def)


section \<open>Particles\<close>

subsection \<open>Auxiliary facts\<close>

lemma fl_of_int:
  assumes "\<bar>n\<bar> < 2 ^ 53"
  shows "fl (of_int n) = of_int n"
proof (cases "n = 0")
  case True
  then show ?thesis by simp
next
  case False
  define x where "x = (of_int n :: rat)"
  have xn: "x \<noteq> 0" using False by (simp add: x_def)
  have "\<bar>x\<bar> = of_int \<bar>n\<bar>" by (simp add: x_def)
  also have "\<dots> < of_int (2 ^ 53)" using assms by (simp only: of_int_less_iff)
  finally have "\<bar>x\<bar> < power_int 2 53" by simp
  then have b: "binade x < 53" by (rule binade_less[OF xn])
  define e where "e = max (binade x - 52) (- 1074)"
  have e: "e \<le> 0" using b by (simp add: e_def)
  have q: "quantum x = power_int 2 e" by (simp add: quantum_def e_def)
  have inv: "power_int (2::rat) e * power_int 2 (- e) = 1"
    by (simp flip: power_int_add)
  have p: "power_int (2::rat) (- e) = of_int (2 ^ nat (- e))" using e by (intro pow2_int) simp
  have "x / quantum x = x * power_int 2 (- e)"
    by (simp add: q power_int_minus divide_inverse)
  also have "\<dots> = of_int (n * 2 ^ nat (- e))" by (simp add: p x_def)
  finally have d: "x / quantum x = of_int (n * 2 ^ nat (- e))" .
  have "(of_int (rne (x / quantum x)) :: rat) = of_int (n * 2 ^ nat (- e))"
    unfolding d by (simp only: rne_of_int)
  also have "\<dots> = x * power_int 2 (- e)" by (simp add: p x_def)
  finally have "fl x = power_int 2 e * (x * power_int 2 (- e))"
    using xn by (simp add: fl_def q)
  also have "\<dots> = x * (power_int 2 e * power_int 2 (- e))" by (simp only: mult_ac)
  also have "\<dots> = x" by (simp only: inv mult_1_right)
  finally show ?thesis by (simp add: x_def)
qed

lemma fl_of_nat: "n < 2 ^ 53 \<Longrightarrow> fl (of_nat n) = of_nat n"
  using fl_of_int[of "int n"] by simp


lemma scaled_level_range:
  assumes "0 \<le> level" and "level \<le> 1" and "0 \<le> k" and "fl k = k"
  shows "0 \<le> Math_floor (fmul level k)" and "Math_floor (fmul level k) \<le> \<lceil>k\<rceil>"
proof -
  have "0 \<le> level * k" using assms by simp
  then have lo: "0 \<le> fmul level k" unfolding fmul_def by (rule fl_nonneg)
  have "level * k \<le> k" using assms by (simp add: mult_left_le_one_le)
  then have hi: "fmul level k \<le> k" unfolding fmul_def using assms(4) by (rule fl_le_const)
  show "0 \<le> Math_floor (fmul level k)" using lo by (simp add: Math_floor_def)
  have "\<lfloor>fmul level k\<rfloor> \<le> \<lfloor>k\<rfloor>" using hi by (rule floor_mono)
  also have "\<dots> \<le> \<lceil>k\<rceil>" by (rule floor_le_ceiling)
  finally show "Math_floor (fmul level k) \<le> \<lceil>k\<rceil>" by (simp add: Math_floor_def)
qed

lemma Array_from_length_small:
  assumes "0 \<le> len" and "len < 2 ^ 32"
  shows "Array_from_length len = Inr [0 ..< nat len]"
  using assms by (auto simp: Array_from_length_def)

lemma Array_from_length_nonpos: "len \<le> 0 \<Longrightarrow> Array_from_length len = Inr []"
  by (simp add: Array_from_length_def)

lemma negative_level_floor:
  assumes "level \<le> 0" and "0 \<le> k"
  shows "Math_floor (fmul level k) \<le> 0"
proof -
  have "level * k \<le> 0" using assms by (simp add: mult_nonpos_nonneg)
  then have "fmul level k \<le> 0" unfolding fmul_def by (rule fl_nonpos)
  then show ?thesis unfolding Math_floor_def by linarith
qed

subsection \<open>The fill level indicator particles of the scene\<close>




lemma fill_scaled_samples:
  "Math_floor (fmul (fillLevel 0) 50) = 0" "Math_floor (fmul (fillLevel 200) 50) = 50"
  "Math_floor (fmul (fillLevel 116) 50) = 28"
  "Math_floor (fmul (fillLevel 0) 10) = 0" "Math_floor (fmul (fillLevel 200) 10) = 10"
  "Math_floor (fmul (fillLevel 116) 10) = 5"
  by code_simp+



subsection \<open>The floating particles of the overlay\<close>

lemma floating_in_unit_range:
  assumes "0 \<le> level" and "level \<le> 1"
  shows "floatingParticles random level =
           Inr (map (\<lambda>i.
                  \<lparr>leftPercent = fadd 10 (fmul (of_nat i) 8),
                   topPercent = fadd 15 (fmul (of_nat i) 6),
                   animationDelay = fmul (of_nat i) (1/2),
                   animationDuration = fadd 2 (fmul (random i) 2)\<rparr>)
                [0 ..< nat (Math_floor (fmul level 10))])"
    and "nat (Math_floor (fmul level 10)) \<le> 10"
proof -
  have r: "0 \<le> Math_floor (fmul level 10)" "Math_floor (fmul level 10) \<le> \<lceil>10 :: rat\<rceil>"
    using assms by (intro scaled_level_range; simp add: fl_exact)+
  then have "Array_from_length (Math_floor (fmul level 10)) = Inr [0 ..< nat (Math_floor (fmul level 10))]"
    by (intro Array_from_length_small) simp_all
  then show "floatingParticles random level =
           Inr (map (\<lambda>i.
                  \<lparr>leftPercent = fadd 10 (fmul (of_nat i) 8),
                   topPercent = fadd 15 (fmul (of_nat i) 6),
                   animationDelay = fmul (of_nat i) (1/2),
                   animationDuration = fadd 2 (fmul (random i) 2)\<rparr>)
                [0 ..< nat (Math_floor (fmul level 10))])"
    by (simp add: floatingParticles_def)
  show "nat (Math_floor (fmul level 10)) \<le> 10" using r by simp
qed

lemma linear_position_exact:
  fixes i :: nat
  assumes "i < 10"
  shows "fadd 10 (fmul (of_nat i) 8) = 10 + of_nat i * 8"
    and "fadd 15 (fmul (of_nat i) 6) = 15 + of_nat i * 6"
proof -
  have m8: "fmul (of_nat i) 8 = of_nat (i * 8)"
    unfolding fmul_def using fl_of_nat[of "i * 8"] assms by simp
  have m6: "fmul (of_nat i) 6 = of_nat (i * 6)"
    unfolding fmul_def using fl_of_nat[of "i * 6"] assms by simp
  show "fadd 10 (fmul (of_nat i) 8) = 10 + of_nat i * 8"
    unfolding fadd_def m8 using fl_of_nat[of "10 + i * 8"] assms by simp
  show "fadd 15 (fmul (of_nat i) 6) = 15 + of_nat i * 6"
    unfolding fadd_def m6 using fl_of_nat[of "15 + i * 6"] assms by simp
qed

text \<open>
  C8. For every fill level from 0 to 1 the overlay renders exactly
  \<open>Math.floor (level * 10)\<close> floating particles; the particle with index \<open>i\<close> stands at
  left \<open>10 + i * 8\<close> percent and top \<open>15 + i * 6\<close> percent, whatever
  \<^verbatim>\<open>Math.random\<close> returns. A count of 0 gives none and a count of 200 gives 10.
\<close>

theorem floating_particles_linear:
  assumes "0 \<le> level" and "level \<le> 1"
  shows "(\<exists>fs. floatingParticles random level = Inr fs
              \<and> length fs = nat (Math_floor (fmul level 10))
              \<and> map (\<lambda>f. (leftPercent f, topPercent f)) fs =
                  map (\<lambda>i. (10 + of_nat i * 8, 15 + of_nat i * 6)) [0 ..< length fs])
       \<and> floatingParticles random (fillLevel 0) = Inr []
       \<and> (\<exists>fs. floatingParticles random (fillLevel 200) = Inr fs \<and> length fs = 10)"
proof -
  note fp = floating_in_unit_range(1)[OF assms, of random] floating_in_unit_range(2)[OF assms]
  have "i < nat (Math_floor (fmul level 10)) \<Longrightarrow> i < 10" for i using fp(2) by simp
  then have 1: "\<exists>fs. floatingParticles random level = Inr fs
              \<and> length fs = nat (Math_floor (fmul level 10))
              \<and> map (\<lambda>f. (leftPercent f, topPercent f)) fs =
                  map (\<lambda>i. (10 + of_nat i * 8, 15 + of_nat i * 6)) [0 ..< length fs]"
    unfolding fp(1) by (simp add: linear_position_exact)
  have l0: "0 \<le> fillLevel 0" and l200: "0 \<le> fillLevel 200"
    by (rule fillLevel_nonneg, simp)+
  have 2: "floatingParticles random (fillLevel 0) = Inr []"
    unfolding floating_in_unit_range(1)[OF l0 fillLevel_le_one] by (simp add: fill_scaled_samples)
  have 3: "\<exists>fs. floatingParticles random (fillLevel 200) = Inr fs \<and> length fs = 10"
    unfolding floating_in_unit_range(1)[OF l200 fillLevel_le_one] by (simp add: fill_scaled_samples)
  from 1 2 3 show ?thesis by blast
qed

theorem floating_particles_linear_witness:
  "(0::rat) \<le> fillLevel 116 \<and> fillLevel 116 \<le> 1
   \<and> (\<exists>fs. floatingParticles (\<lambda>n. of_nat (n mod 4) / 4) (fillLevel 116) = Inr fs
          \<and> map (\<lambda>f. (leftPercent f, topPercent f)) fs =
              [(10, 15), (18, 21), (26, 27), (34, 33), (42, 39)])"
proof -
  have l: "0 \<le> fillLevel 116" by (rule fillLevel_nonneg) simp
  have u: "[0 ..< 5] = [0, 1, 2, 3, 4]" by (simp add: upt_rec)
  from floating_particles_linear[OF l fillLevel_le_one, of "\<lambda>n. of_nat (n mod 4) / 4"] l
  show ?thesis by (auto simp add: fill_scaled_samples fillLevel_le_one u)
qed


section \<open>Negative pledge counts\<close>

lemma negative_samples:
  "fl (- 1 / 200) < 0" "fmul (fl (- 2 / 200)) 100 = - 1"
  by code_simp+

lemma negative_fillLevel:
  fixes count :: int
  assumes "count < 0"
  shows "fillLevel (of_int count) = fdiv (of_int count) 200" and "fillLevel (of_int count) < 0"
proof -
  have "count \<le> - 1" using assms by simp
  then have "(of_int count :: rat) \<le> of_int (- 1)" by (simp only: of_int_le_iff)
  then have "fdiv (of_int count) 200 \<le> fdiv (- 1) 200" by (intro fdiv_200_mono) simp
  then have neg: "fdiv (of_int count) 200 < 0" using negative_samples(1) by (simp add: fdiv_def)
  then show "fillLevel (of_int count) = fdiv (of_int count) 200" by (simp add: fillLevel_def)
  with neg show "fillLevel (of_int count) < 0" by simp
qed

lemma negative_fillPercentage:
  fixes count :: int
  assumes "count < 0"
  shows "fillPercentage (of_int count) \<le> 0"
proof -
  have "fillLevel (of_int count) * 100 \<le> 0"
    using negative_fillLevel(2)[OF assms] by (simp add: mult_nonpos_nonneg)
  then have "fmul (fillLevel (of_int count)) 100 \<le> 0" unfolding fmul_def by (rule fl_nonpos)
  then show ?thesis unfolding fillPercentage_def Math_round_def by linarith
qed

lemma negative_fillPercentage_strict:
  fixes count :: int
  assumes "count \<le> - 2"
  shows "fillPercentage (of_int count) < 0"
proof -
  have neg: "count < 0" using assms by simp
  have "(of_int count :: rat) \<le> of_int (- 2)" using assms by (simp only: of_int_le_iff)
  then have "fdiv (of_int count) 200 \<le> fdiv (- 2) 200" by (intro fdiv_200_mono) simp
  then have "fillLevel (of_int count) \<le> fl (- 2 / 200)"
    by (simp add: negative_fillLevel(1)[OF neg] fdiv_def)
  then have "fillLevel (of_int count) * 100 \<le> fl (- 2 / 200) * 100" by simp
  then have "fmul (fillLevel (of_int count)) 100 \<le> fmul (fl (- 2 / 200)) 100"
    unfolding fmul_def by (rule fl_mono)
  then have "fmul (fillLevel (of_int count)) 100 \<le> - 1" by (simp only: negative_samples(2))
  then show ?thesis unfolding fillPercentage_def Math_round_def by linarith
qed

text \<open>
  C10, as the claim states it, fails at the count \<open>-1\<close>: the fill level is the Number
  \<open>-0.005\<close>, its product with 100 is \<open>-0.5\<close>, and \<^verbatim>\<open>Math.round\<close> takes a tie
  upwards, to zero. The percentage displayed is 0, not a negative number.
\<close>

theorem negative_one_shows_zero_percent:
  "fillLevel (- 1) < 0 \<and> fmul (fillLevel (- 1)) 100 = - (1/2) \<and> fillPercentage (- 1) = 0
   \<and> \<not> fillPercentage (- 1) < 0"
  by code_simp

text \<open>
  C10, amended. For every negative integer pledge count the fill level is not clamped to
  0: it is the quotient \<open>count / 200\<close> and negative. The displayed percentage is never
  positive, and it is negative for every count of \<open>-2\<close> or less. Both particle systems
  render no particle, and the starting message is the one shown.
\<close>

theorem negative_count_not_clamped:
  fixes count :: int
  assumes "count < 0"
  shows "fillLevel (of_int count) = fdiv (of_int count) 200
       \<and> fillLevel (of_int count) < 0
       \<and> fillPercentage (of_int count) \<le> 0
       \<and> (count \<le> - 2 \<longrightarrow> fillPercentage (of_int count) < 0)
       \<and> particles random (fillLevel (of_int count)) = Inr []
       \<and> floatingParticles random' (fillLevel (of_int count)) = Inr []
       \<and> statusMessages (fillLevel (of_int count)) = [statusStarting]
       \<and> LungsModel3D random' (of_int count) =
           Inr \<lparr>captionCount = of_int count,
                captionPercentage = fillPercentage (of_int count),
                barWidthPercent = fillPercentage (of_int count),
                modelFillLevel = fdiv (of_int count) 200,
                statusShown = [statusStarting],
                floating = []\<rparr>"
proof -
  note lvl = negative_fillLevel[OF assms]
  have le0: "fillLevel (of_int count) \<le> 0" using lvl(2) by simp
  have p: "particles random (fillLevel (of_int count)) = Inr []"
    using negative_level_floor[OF le0, of 50]
    by (simp add: particles_def Array_from_length_nonpos)
  have f: "floatingParticles random' (fillLevel (of_int count)) = Inr []"
    using negative_level_floor[OF le0, of 10]
    by (simp add: floatingParticles_def Array_from_length_nonpos)
  have "fillLevel (of_int count) < 1/4" using lvl(2) by simp
  then have s: "statusMessages (fillLevel (of_int count)) = [statusStarting]"
    by (simp add: statusMessages_first_match tier_spec_def)
  have c: "LungsModel3D random' (of_int count) =
           Inr \<lparr>captionCount = of_int count,
                captionPercentage = fillPercentage (of_int count),
                barWidthPercent = fillPercentage (of_int count),
                modelFillLevel = fdiv (of_int count) 200,
                statusShown = [statusStarting],
                floating = []\<rparr>"
    unfolding LungsModel3D_def f s by (simp add: lvl(1))
  from lvl negative_fillPercentage[OF assms] negative_fillPercentage_strict[of count] p f s c
  show ?thesis by blast
qed

theorem negative_count_not_clamped_witness:
  "(- 3 :: int) < 0 \<and> (- 3 :: int) \<le> - 2
   \<and> fillLevel (of_int (- 3)) < 0 \<and> fillPercentage (of_int (- 3)) < 0
   \<and> particles (\<lambda>n. 1 / 4) (fillLevel (of_int (- 3))) = Inr []
   \<and> floatingParticles (\<lambda>n. 1 / 4) (fillLevel (of_int (- 3))) = Inr []
   \<and> statusMessages (fillLevel (of_int (- 3))) = [statusStarting]"
proof -
  have h: "(- 3 :: int) < 0" and h': "(- 3 :: int) \<le> - 2" by simp_all
  from negative_count_not_clamped[OF h, of "\<lambda>n. 1 / 4" "\<lambda>n. 1 / 4"] h h'
  show ?thesis by blast
qed

section \<open>The breathing animation\<close>

lemma Number_zero: "fmul 0 x = 0" "fmul x 0 = 0" "fadd 1 0 = 1"
  by (simp_all add: fmul_def fadd_def fl_exact)

lemma tenth: "\<bar>fl (1/10) - 1/10\<bar> \<le> 1 / 2 ^ 57"
  using fl_error_below[of "1/10" "- 3"] by (simp add: power_int_minus_divide)

lemma fifth: "\<bar>fl (1/5) - 1/5\<bar> \<le> 1 / 2 ^ 56"
  using fl_error_below[of "1/5" "- 2"] by (simp add: power_int_minus_divide)

lemma times_tenth:
  assumes "\<bar>m\<bar> \<le> 1"
  shows "\<bar>fmul m (fl (1/10)) - m / 10\<bar> \<le> 1 / 2 ^ 56"
proof -
  define d where "d = fl (1/10)"
  have d: "\<bar>d - 1/10\<bar> \<le> 1 / 2 ^ 57" unfolding d_def by (rule tenth)
  have num: "(1::rat) / 10 + 1 / 2 ^ 57 < 1 / 8" "(0::rat) \<le> 1 / 10 - 1 / 2 ^ 57" by simp_all
  have dpos: "0 \<le> d" and dle: "d < 1 / 8" using d num by linarith+
  have "\<bar>m * d\<bar> = \<bar>m\<bar> * d" using dpos by (simp add: abs_mult)
  also have "\<dots> \<le> 1 * d" using assms dpos by (intro mult_right_mono)
  finally have "\<bar>m * d\<bar> < power_int 2 (- 3)" using dle by (simp add: power_int_minus_divide)
  then have "\<bar>fl (m * d) - m * d\<bar> \<le> power_int 2 (- 3 - 54)" by (rule fl_error_below) simp
  then have 1: "\<bar>fl (m * d) - m * d\<bar> \<le> 1 / 2 ^ 57" by (simp add: power_int_minus_divide)
  have "\<bar>m * d - m / 10\<bar> = \<bar>m\<bar> * \<bar>d - 1/10\<bar>" by (simp add: abs_mult[symmetric] algebra_simps)
  also have "\<dots> \<le> 1 * (1 / 2 ^ 57)" using assms d by (intro mult_mono) simp_all
  finally have 2: "\<bar>m * d - m / 10\<bar> \<le> 1 / 2 ^ 57" by simp
  have "(1::rat) / 2 ^ 57 + 1 / 2 ^ 57 = 1 / 2 ^ 56" by simp
  with 1 2 show ?thesis unfolding fmul_def d_def[symmetric] by linarith
qed

lemma scale_accuracy:
  assumes "\<bar>m\<bar> \<le> 1"
  shows "\<bar>fadd 1 (fmul m (fl (1/10))) - (1 + m / 10)\<bar> \<le> 1 / 2 ^ 52"
proof -
  define p where "p = fmul m (fl (1/10))"
  have p: "\<bar>p - m / 10\<bar> \<le> 1 / 2 ^ 56" unfolding p_def using assms by (rule times_tenth)
  have "(1::rat) / 2 ^ 56 < 1 / 2" by simp
  with p assms have "\<bar>1 + p\<bar> < 2" by linarith
  then have "\<bar>fl (1 + p) - (1 + p)\<bar> \<le> 1 / 2 ^ 53" by (rule fl_error_small)
  moreover have "(1::rat) / 2 ^ 53 + 1 / 2 ^ 56 \<le> 1 / 2 ^ 52" by simp
  ultimately show ?thesis unfolding fadd_def p_def[symmetric] using p by linarith
qed

lemma times_fifth:
  assumes "t = 0 \<or> power_int 2 (- 1000) \<le> \<bar>t\<bar>"
  shows "\<bar>fmul t (fl (1/5)) - t / 5\<bar> \<le> \<bar>t\<bar> / 2 ^ 54"
proof (cases "t = 0")
  case True
  then show ?thesis by (simp add: fmul_def)
next
  case False
  with assms have t: "power_int 2 (- 1000) \<le> \<bar>t\<bar>" by simp
  define c where "c = fl (1/5)"
  have c: "\<bar>c - 1/5\<bar> \<le> 1 / 2 ^ 56" unfolding c_def by (rule fifth)
  have num: "(1::rat) / 8 \<le> 1 / 5 - 1 / 2 ^ 56" "(1::rat) / 5 + 1 / 2 ^ 56 \<le> 1 / 4" by simp_all
  have clo: "1 / 8 \<le> c" and chi: "c \<le> 1 / 4" using c num by linarith+
  have x: "\<bar>t * c\<bar> = \<bar>t\<bar> * c" using clo by (simp add: abs_mult)
  have "power_int (2::rat) (- 1022) \<le> power_int 2 (- 1003)" by (rule pow2_mono) simp
  also have "\<dots> = power_int 2 (- 1000) * (1 / 8)"
    using power_int_add[of "2::rat" "- 1000" "- 3"] by (simp add: power_int_minus_divide)
  also have "\<dots> \<le> \<bar>t\<bar> * c" using t clo by (intro mult_mono) simp_all
  finally have "power_int 2 (- 1022) \<le> \<bar>t * c\<bar>" by (simp only: x)
  then have "\<bar>fl (t * c) - t * c\<bar> \<le> \<bar>t * c\<bar> / 2 ^ 53" by (rule fl_rel_error)
  also have "\<bar>t * c\<bar> / 2 ^ 53 \<le> \<bar>t\<bar> * (1 / 4) / 2 ^ 53"
    unfolding x using chi by (intro divide_right_mono mult_left_mono) simp_all
  finally have 1: "\<bar>fl (t * c) - t * c\<bar> \<le> \<bar>t\<bar> / 2 ^ 55" by simp
  have "\<bar>t * c - t / 5\<bar> = \<bar>t\<bar> * \<bar>c - 1/5\<bar>" by (simp add: abs_mult[symmetric] algebra_simps)
  also have "\<dots> \<le> \<bar>t\<bar> * (1 / 2 ^ 56)" using c by (intro mult_left_mono) simp_all
  finally have 2: "\<bar>t * c - t / 5\<bar> \<le> \<bar>t\<bar> / 2 ^ 56" by simp
  have "\<bar>t\<bar> / 2 ^ 55 + \<bar>t\<bar> / 2 ^ 56 \<le> \<bar>t\<bar> / 2 ^ 54" by simp
  with 1 2 show ?thesis unfolding fmul_def c_def[symmetric] by linarith
qed

lemma half_time:
  assumes "fl t = t" and "t = 0 \<or> power_int 2 (- 1000) \<le> \<bar>t\<bar>"
  shows "fmul t (1/2) = t / 2"
proof (cases "t = 0")
  case True
  then show ?thesis by (simp add: fmul_def)
next
  case False
  with assms(2) have "power_int 2 (- 1000) \<le> \<bar>t\<bar>" by simp
  with assms(1) have "fl (t / 2) = t / 2" by (rule fl_half)
  then show ?thesis by (simp add: fmul_def)
qed

lemma to_real:
  fixes a b e :: rat
  assumes "\<bar>a - b\<bar> \<le> e"
  shows "\<bar>(of_rat a :: real) - of_rat b\<bar> \<le> of_rat e"
proof -
  have "(of_rat \<bar>a - b\<bar> :: real) \<le> of_rat e" using assms by (simp only: of_rat_less_eq)
  then show ?thesis by (simp add: of_rat_diff[symmetric])
qed

text \<open>
  C5. The callback gives all three scale components of the group the value
  \<open>1 + sin (t * 0.5) * 0.1\<close> and its Y rotation the value \<open>sin (t * 0.2) * 0.1\<close>, and
  what it writes depends on the elapsed time only, not on the transform it finds. The
  values are binary64 Numbers computed with the engine's \<^verbatim>\<open>Math.sin\<close>: for a time
  \<open>t\<close> that is a Number (zero, or not below \<open>2\<^sup>-\<^sup>1\<^sup>0\<^sup>0\<^sup>0\<close>) and a sine within
  \<open>[-1, 1]\<close>, the scale is within \<open>2\<^sup>-\<^sup>5\<^sup>2\<close> of \<open>1 + Math.sin (t / 2) / 10\<close> and the
  rotation within \<open>2\<^sup>-\<^sup>5\<^sup>6\<close> of \<open>Math.sin (t') / 10\<close>, where \<open>t'\<close> is the Number
  \<open>t * 0.2\<close>, within \<open>\<bar>t\<bar> / 2\<^sup>5\<^sup>4\<close> of \<open>t / 5\<close>. When \<^verbatim>\<open>Math.sin\<close> is within
  \<open>\<epsilon>\<close> of the sine at these two arguments, the scale is within
  \<open>\<epsilon> / 10 + 2\<^sup>-\<^sup>5\<^sup>2\<close> of \<open>1 + sin (t * 0.5) * 0.1\<close> and the rotation within
  \<open>(\<epsilon> + \<bar>t\<bar> / 2\<^sup>5\<^sup>4) / 10 + 2\<^sup>-\<^sup>5\<^sup>6\<close> of \<open>sin (t * 0.2) * 0.1\<close>. With
  \<open>Math.sin 0 = 0\<close>, as ECMAScript fixes it, the scale at time zero is 1 and the rotation 0.
\<close>

theorem breathing_follows_sine:
  fixes Math_sin :: "number \<Rightarrow> number" and t :: number and \<epsilon> :: real
  assumes "fl t = t" and "t = 0 \<or> power_int 2 (- 1000) \<le> \<bar>t\<bar>"
    and "\<bar>Math_sin (t / 2)\<bar> \<le> 1" and "\<bar>Math_sin (fmul t (fl (1/5)))\<bar> \<le> 1"
    and "\<bar>of_rat (Math_sin (t / 2)) - sin (of_rat t * (1/2))\<bar> \<le> \<epsilon>"
    and "\<bar>of_rat (Math_sin (fmul t (fl (1/5)))) - sin (of_rat (fmul t (fl (1/5))))\<bar> \<le> \<epsilon>"
  shows "(\<exists>s r.
            useFrame_callback Math_sin t (Some g) =
              Some (g\<lparr>scale_x := s, scale_y := s, scale_z := s, rotation_y := r\<rparr>)
          \<and> useFrame_callback Math_sin t (Some g') =
              Some (g'\<lparr>scale_x := s, scale_y := s, scale_z := s, rotation_y := r\<rparr>)
          \<and> \<bar>s - (1 + Math_sin (t * (1/2)) * (1/10))\<bar> \<le> 1 / 2 ^ 52
          \<and> \<bar>r - Math_sin (fmul t (fl (1/5))) * (1/10)\<bar> \<le> 1 / 2 ^ 56
          \<and> \<bar>fmul t (fl (1/5)) - t * (1/5)\<bar> \<le> \<bar>t\<bar> / 2 ^ 54
          \<and> \<bar>of_rat s - (1 + sin (of_rat t * (1/2)) * (1/10))\<bar> \<le> \<epsilon> / 10 + 1 / 2 ^ 52
          \<and> \<bar>of_rat r - sin (of_rat t * (1/5)) * (1/10)\<bar>
              \<le> (\<epsilon> + \<bar>of_rat t\<bar> / 2 ^ 54) / 10 + 1 / 2 ^ 56)
       \<and> useFrame_callback Math_sin t None = None
       \<and> (Math_sin 0 = 0 \<longrightarrow>
            useFrame_callback Math_sin 0 (Some g) =
              Some (g\<lparr>scale_x := 1, scale_y := 1, scale_z := 1, rotation_y := 0\<rparr>))"
proof -
  define t' where "t' = fmul t (fl (1/5))"
  define s where "s = fadd 1 (fmul (Math_sin (t / 2)) (fl (1/10)))"
  define r where "r = fmul (Math_sin t') (fl (1/10))"
  have half: "fmul t (1/2) = t / 2" using assms(1,2) by (rule half_time)
  have cb: "useFrame_callback Math_sin t (Some h) =
              Some (h\<lparr>scale_x := s, scale_y := s, scale_z := s, rotation_y := r\<rparr>)" for h
    by (simp add: useFrame_callback_def Let_def half s_def r_def t'_def)
  have s: "\<bar>s - (1 + Math_sin (t / 2) / 10)\<bar> \<le> 1 / 2 ^ 52"
    unfolding s_def using assms(3) by (rule scale_accuracy)
  have r: "\<bar>r - Math_sin t' / 10\<bar> \<le> 1 / 2 ^ 56"
    unfolding r_def using assms(4) unfolding t'_def[symmetric] by (rule times_tenth)
  have t': "\<bar>t' - t / 5\<bar> \<le> \<bar>t\<bar> / 2 ^ 54" unfolding t'_def using assms(2) by (rule times_fifth)
  have sR: "\<bar>(of_rat s :: real) - (1 + of_rat (Math_sin (t / 2)) / 10)\<bar> \<le> 1 / 2 ^ 52"
    using to_real[OF s] by (simp add: of_rat_add of_rat_divide of_rat_power)
  have rR: "\<bar>(of_rat r :: real) - of_rat (Math_sin t') / 10\<bar> \<le> 1 / 2 ^ 56"
    using to_real[OF r] by (simp add: of_rat_divide of_rat_power)
  have tR: "\<bar>(of_rat t' :: real) - of_rat t / 5\<bar> \<le> \<bar>of_rat t\<bar> / 2 ^ 54"
    using to_real[OF t'] by (simp add: of_rat_divide of_rat_power)
  have e1: "\<bar>of_rat (Math_sin (t / 2)) - sin (of_rat t / 2 :: real)\<bar> \<le> \<epsilon>" using assms(5) by simp
  have e2: "\<bar>of_rat (Math_sin t') - sin (of_rat t' :: real)\<bar> \<le> \<epsilon>" using assms(6) by (simp add: t'_def)
  have lip: "\<bar>sin (of_rat t' :: real) - sin (of_rat t / 5)\<bar> \<le> \<bar>of_rat t\<bar> / 2 ^ 54"
    using sin_lipschitz[of "of_rat t'" "of_rat t / 5"] tR by linarith
  have S: "\<bar>of_rat s - (1 + sin (of_rat t / 2 :: real) / 10)\<bar> \<le> \<epsilon> / 10 + 1 / 2 ^ 52"
    using sR e1 by linarith
  define \<delta> where "\<delta> = \<bar>of_rat t :: real\<bar> / 2 ^ 54"
  have "\<bar>of_rat (Math_sin t') - sin (of_rat t / 5 :: real)\<bar> \<le> \<epsilon> + \<delta>"
    using e2 lip unfolding \<delta>_def by linarith
  then have "\<bar>of_rat r - sin (of_rat t / 5 :: real) / 10\<bar> \<le> \<epsilon> / 10 + \<delta> / 10 + 1 / 2 ^ 56"
    using rR by linarith
  then have "\<bar>of_rat r - sin (of_rat t / 5 :: real) / 10\<bar> \<le> (\<epsilon> + \<delta>) / 10 + 1 / 2 ^ 56"
    by (simp only: add_divide_distrib)
  then have R: "\<bar>of_rat r - sin (of_rat t / 5 :: real) / 10\<bar>
      \<le> (\<epsilon> + \<bar>of_rat t\<bar> / 2 ^ 54) / 10 + 1 / 2 ^ 56"
    by (simp only: \<delta>_def)
  have main: "\<exists>s r.
            useFrame_callback Math_sin t (Some g) =
              Some (g\<lparr>scale_x := s, scale_y := s, scale_z := s, rotation_y := r\<rparr>)
          \<and> useFrame_callback Math_sin t (Some g') =
              Some (g'\<lparr>scale_x := s, scale_y := s, scale_z := s, rotation_y := r\<rparr>)
          \<and> \<bar>s - (1 + Math_sin (t * (1/2)) * (1/10))\<bar> \<le> 1 / 2 ^ 52
          \<and> \<bar>r - Math_sin (fmul t (fl (1/5))) * (1/10)\<bar> \<le> 1 / 2 ^ 56
          \<and> \<bar>fmul t (fl (1/5)) - t * (1/5)\<bar> \<le> \<bar>t\<bar> / 2 ^ 54
          \<and> \<bar>of_rat s - (1 + sin (of_rat t * (1/2)) * (1/10))\<bar> \<le> \<epsilon> / 10 + 1 / 2 ^ 52
          \<and> \<bar>of_rat r - sin (of_rat t * (1/5)) * (1/10)\<bar>
              \<le> (\<epsilon> + \<bar>of_rat t\<bar> / 2 ^ 54) / 10 + 1 / 2 ^ 56"
    using cb[of g] cb[of g'] s r t' S R unfolding t'_def by (intro exI[of _ s] exI[of _ r]) simp
  have none: "useFrame_callback Math_sin t None = None" by (simp add: useFrame_callback_def)
  have zero: "Math_sin 0 = 0 \<longrightarrow>
            useFrame_callback Math_sin 0 (Some g) =
              Some (g\<lparr>scale_x := 1, scale_y := 1, scale_z := 1, rotation_y := 0\<rparr>)"
    by (simp add: useFrame_callback_def Let_def Number_zero)
  show ?thesis by (intro conjI main none zero)
qed

lemma fifth_value: "fl (1/5) = 3602879701896397 / 2 ^ 54"
proof -
  have "fl (1/5) = of_int 7205759403792794 / 2 ^ 55"
    by (rule fl_cert) simp_all
  then show ?thesis by simp
qed

lemma two_fifths_value: "fmul 2 (fl (1/5)) = 3602879701896397 / 2 ^ 53"
proof -
  have "fl (2 * (3602879701896397 / 2 ^ 54)) = of_int 7205759403792794 / 2 ^ 54"
    by (rule fl_cert) simp_all
  then show ?thesis unfolding fmul_def fifth_value by simp
qed

lemma sine_polynomial_accuracy:
  fixes q :: rat
  assumes "\<bar>q\<bar> \<le> 1"
  shows "\<bar>of_rat (sine_polynomial q) - sin (of_rat q :: real)\<bar> \<le> 1 / 362880"
proof -
  define x where "x = (of_rat q :: real)"
  have x: "\<bar>x\<bar> \<le> 1" using assms unfolding x_def by simp
  have poly: "(of_rat (sine_polynomial q) :: real) = x - x ^ 3 / 6 + x ^ 5 / 120 - x ^ 7 / 5040"
    by (simp add: sine_polynomial_def x_def of_rat_add of_rat_diff of_rat_divide of_rat_power)
  have "{..<9::nat} = {0, 1, 2, 3, 4, 5, 6, 7, 8}" by auto
  then have "(\<Sum>m<9. sin_coeff m * x ^ m) = x - x ^ 3 / 6 + x ^ 5 / 120 - x ^ 7 / 5040"
    by (simp add: sin_coeff_def fact_numeral)
  with Maclaurin_sin_bound[of x 9]
  have "\<bar>sin x - (x - x ^ 3 / 6 + x ^ 5 / 120 - x ^ 7 / 5040)\<bar> \<le> inverse (fact 9) * \<bar>x\<bar> ^ 9"
    by simp
  also have "\<dots> \<le> inverse (fact 9) * 1"
    using x by (intro mult_left_mono power_le_one) simp_all
  also have "\<dots> = 1 / 362880" by (simp add: fact_numeral)
  finally show ?thesis unfolding poly x_def[symmetric] by linarith
qed

theorem breathing_follows_sine_witness:
  "fl 2 = (2 :: rat)
   \<and> ((2 :: rat) = 0 \<or> power_int 2 (- 1000) \<le> \<bar>2 :: rat\<bar>)
   \<and> \<bar>sine_polynomial (2 / 2)\<bar> \<le> 1
   \<and> \<bar>sine_polynomial (fmul 2 (fl (1/5)))\<bar> \<le> 1
   \<and> \<bar>of_rat (sine_polynomial (2 / 2)) - sin (of_rat 2 * (1/2))\<bar> \<le> (1 / 362880 :: real)
   \<and> \<bar>of_rat (sine_polynomial (fmul 2 (fl (1/5)))) - sin (of_rat (fmul 2 (fl (1/5))))\<bar>
       \<le> (1 / 362880 :: real)
   \<and> (\<exists>s r.
          useFrame_callback sine_polynomial 2
            (Some \<lparr>scale_x = 1, scale_y = 1, scale_z = 1,
                   rotation_x = 0, rotation_y = 0, rotation_z = 0\<rparr>) =
            Some \<lparr>scale_x = s, scale_y = s, scale_z = s,
                  rotation_x = 0, rotation_y = r, rotation_z = 0\<rparr>
        \<and> \<bar>of_rat s - (1 + sin (of_rat 2 * (1/2)) * (1/10))\<bar>
            \<le> (1 / 362880 :: real) / 10 + 1 / 2 ^ 52
        \<and> \<bar>of_rat r - sin (of_rat 2 * (1/5)) * (1/10)\<bar>
            \<le> (1 / 362880 + \<bar>of_rat 2 :: real\<bar> / 2 ^ 54) / 10 + 1 / 2 ^ 56)
   \<and> sine_polynomial 0 = 0
   \<and> useFrame_callback sine_polynomial 0
        (Some \<lparr>scale_x = 21 / 20, scale_y = 21 / 20, scale_z = 21 / 20,
               rotation_x = 0, rotation_y = 1 / 16, rotation_z = 0\<rparr>) =
      Some \<lparr>scale_x = 1, scale_y = 1, scale_z = 1,
            rotation_x = 0, rotation_y = 0, rotation_z = 0\<rparr>"
proof -
  have h1: "fl 2 = (2 :: rat)" using fl_of_int[of 2] by simp
  have "power_int (2 :: rat) (- 1000) \<le> power_int 2 0" by (rule pow2_mono) simp
  then have h2: "(2 :: rat) = 0 \<or> power_int 2 (- 1000) \<le> \<bar>2 :: rat\<bar>" by simp
  have h3: "\<bar>sine_polynomial (2 / 2)\<bar> \<le> 1" by (simp add: sine_polynomial_def)
  have h4: "\<bar>sine_polynomial (fmul 2 (fl (1/5)))\<bar> \<le> 1"
    unfolding two_fifths_value by (simp add: sine_polynomial_def power_divide)
  have h5: "\<bar>of_rat (sine_polynomial (2 / 2)) - sin (of_rat 2 * (1/2))\<bar> \<le> (1 / 362880 :: real)"
    using sine_polynomial_accuracy[of "2 / 2"] by simp
  have "\<bar>fmul 2 (fl (1/5))\<bar> \<le> 1" unfolding two_fifths_value by simp
  then have h6: "\<bar>of_rat (sine_polynomial (fmul 2 (fl (1/5)))) - sin (of_rat (fmul 2 (fl (1/5))))\<bar>
       \<le> (1 / 362880 :: real)"
    by (rule sine_polynomial_accuracy)
  have z: "sine_polynomial 0 = 0" by (simp add: sine_polynomial_def)
  note th = breathing_follows_sine[OF h1 h2 h3 h4 h5 h6,
      of "\<lparr>scale_x = 1, scale_y = 1, scale_z = 1,
           rotation_x = 0, rotation_y = 0, rotation_z = 0\<rparr>"
         "\<lparr>scale_x = 21 / 20, scale_y = 21 / 20, scale_z = 21 / 20,
           rotation_x = 0, rotation_y = 1 / 16, rotation_z = 0\<rparr>"]
  from th have ex: "\<exists>s r.
          useFrame_callback sine_polynomial 2
            (Some \<lparr>scale_x = 1, scale_y = 1, scale_z = 1,
                   rotation_x = 0, rotation_y = 0, rotation_z = 0\<rparr>) =
            Some \<lparr>scale_x = s, scale_y = s, scale_z = s,
                  rotation_x = 0, rotation_y = r, rotation_z = 0\<rparr>
        \<and> \<bar>of_rat s - (1 + sin (of_rat 2 * (1/2)) * (1/10))\<bar>
            \<le> (1 / 362880 :: real) / 10 + 1 / 2 ^ 52
        \<and> \<bar>of_rat r - sin (of_rat 2 * (1/5)) * (1/10)\<bar>
            \<le> (1 / 362880 + \<bar>of_rat 2 :: real\<bar> / 2 ^ 54) / 10 + 1 / 2 ^ 56"
  proof -
    from th have "\<exists>s r.
          useFrame_callback sine_polynomial 2
            (Some \<lparr>scale_x = 1, scale_y = 1, scale_z = 1,
                   rotation_x = 0, rotation_y = 0, rotation_z = 0\<rparr>) =
           Some (\<lparr>scale_x = 1, scale_y = 1, scale_z = 1,
                   rotation_x = 0, rotation_y = 0, rotation_z = 0\<rparr>
                 \<lparr>scale_x := s, scale_y := s, scale_z := s, rotation_y := r\<rparr>)
        \<and> \<bar>of_rat s - (1 + sin (of_rat 2 * (1/2)) * (1/10))\<bar>
            \<le> (1 / 362880 :: real) / 10 + 1 / 2 ^ 52
        \<and> \<bar>of_rat r - sin (of_rat 2 * (1/5)) * (1/10)\<bar>
            \<le> (1 / 362880 + \<bar>of_rat 2 :: real\<bar> / 2 ^ 54) / 10 + 1 / 2 ^ 56"
      by (elim conjE exE) (rule exI, rule exI, intro conjI, assumption+)
    then obtain s r where
      cb: "useFrame_callback sine_polynomial 2
            (Some \<lparr>scale_x = 1, scale_y = 1, scale_z = 1,
                   rotation_x = 0, rotation_y = 0, rotation_z = 0\<rparr>) =
           Some (\<lparr>scale_x = 1, scale_y = 1, scale_z = 1,
                   rotation_x = 0, rotation_y = 0, rotation_z = 0\<rparr>
                 \<lparr>scale_x := s, scale_y := s, scale_z := s, rotation_y := r\<rparr>)"
      and sb: "\<bar>of_rat s - (1 + sin (of_rat 2 * (1/2)) * (1/10))\<bar>
            \<le> (1 / 362880 :: real) / 10 + 1 / 2 ^ 52"
      and rb: "\<bar>of_rat r - sin (of_rat 2 * (1/5)) * (1/10)\<bar>
            \<le> (1 / 362880 + \<bar>of_rat 2 :: real\<bar> / 2 ^ 54) / 10 + 1 / 2 ^ 56"
      by blast
    have cb': "useFrame_callback sine_polynomial 2
            (Some \<lparr>scale_x = 1, scale_y = 1, scale_z = 1,
                   rotation_x = 0, rotation_y = 0, rotation_z = 0\<rparr>) =
            Some \<lparr>scale_x = s, scale_y = s, scale_z = s,
                  rotation_x = 0, rotation_y = r, rotation_z = 0\<rparr>"
      using cb by simp
    show ?thesis by (rule exI[of _ s], rule exI[of _ r]) (intro conjI cb' sb rb)
  qed
  have zero: "useFrame_callback sine_polynomial 0
        (Some \<lparr>scale_x = 21 / 20, scale_y = 21 / 20, scale_z = 21 / 20,
               rotation_x = 0, rotation_y = 1 / 16, rotation_z = 0\<rparr>) =
      Some \<lparr>scale_x = 1, scale_y = 1, scale_z = 1,
            rotation_x = 0, rotation_y = 0, rotation_z = 0\<rparr>"
    using breathing_follows_sine[OF h1 h2 h3 h4 h5 h6,
      of "\<lparr>scale_x = 21 / 20, scale_y = 21 / 20, scale_z = 21 / 20,
           rotation_x = 0, rotation_y = 1 / 16, rotation_z = 0\<rparr>"] z
    by simp
  show ?thesis by (intro conjI h1 h2 h3 h4 h5 h6 ex z zero)
qed

section \<open>The material changes\<close>

lemma fillMaterial_value:
  "fillMaterial level m =
     \<lparr>color = Some (Color_hsl_style (fadd 120 (fmul level 60)) (fadd 40 (fmul level 20))),
      opacity = fadd (fl (4/5)) (fmul level (fl (1/5))),
      transparent = True\<rparr>"
  by (cases m) (simp add: fillMaterial_def)

lemma fillMaterial_again: "fillMaterial level (fillMaterial level m) = fillMaterial level m"
  by (simp add: fillMaterial_value)

lemma fillMaterial_has_color: "color (fillMaterial level m) \<noteq> None"
  by (simp add: fillMaterial_value)

lemma applyMaterial_step:
  assumes "h a = Some m" and "color m \<noteq> None"
  shows "applyMaterial level x h a = Some m \<or> applyMaterial level x h a = Some (fillMaterial level m)"
  using assms by (auto simp: applyMaterial_def split: material_slot.splits option.splits)

lemma applyMaterial_hit:
  assumes "isMesh x" and "materialSlot x = Single a" and "h a = Some m" and "color m \<noteq> None"
  shows "applyMaterial level x h a = Some (fillMaterial level m)"
  using assms by (simp add: applyMaterial_def)

lemma applyMaterial_colourless:
  assumes "h a = Some m" and "color m = None"
  shows "applyMaterial level x h a = Some m"
  using assms by (auto simp: applyMaterial_def split: material_slot.splits option.splits)

lemma fold_filled:
  "h a = Some (fillMaterial level m) \<Longrightarrow>
   fold (applyMaterial level) ns h a = Some (fillMaterial level m)"
proof (induction ns arbitrary: h)
  case Nil
  then show ?case by simp
next
  case (Cons x xs)
  from applyMaterial_step[of h a "fillMaterial level m" level x, OF Cons.prems fillMaterial_has_color]
  have "applyMaterial level x h a = Some (fillMaterial level m)"
    by (simp add: fillMaterial_again)
  then show ?case using Cons.IH by simp
qed

lemma fold_visits:
  assumes "n \<in> set ns" and "isMesh n" and "materialSlot n = Single a"
    and "h a = Some m" and "color m \<noteq> None"
  shows "fold (applyMaterial level) ns h a = Some (fillMaterial level m)"
  using assms(1,4,5)
proof (induction ns arbitrary: h m)
  case Nil
  then show ?case by simp
next
  case (Cons x xs)
  show ?case
  proof (cases "x = n")
    case True
    then have "applyMaterial level x h a = Some (fillMaterial level m)"
      using assms(2,3) Cons.prems by (simp add: applyMaterial_hit)
    then show ?thesis by (simp add: fold_filled)
  next
    case False
    then have mem: "n \<in> set xs" using Cons.prems(1) by simp
    from applyMaterial_step[of h a m level x, OF Cons.prems(2,3)] show ?thesis
    proof
      assume "applyMaterial level x h a = Some m"
      from Cons.IH[of "applyMaterial level x h" m, OF mem this Cons.prems(3)] show ?thesis by simp
    next
      assume "applyMaterial level x h a = Some (fillMaterial level m)"
      then show ?thesis by (simp add: fold_filled)
    qed
  qed
qed

lemma fold_colourless:
  "h a = Some m \<Longrightarrow> color m = None \<Longrightarrow> fold (applyMaterial level) ns h a = Some m"
  by (induction ns arbitrary: h) (simp_all add: applyMaterial_colourless)

lemma traverse_fold: "traverse callback t h = fold callback (nodes t) h"
proof (induction t arbitrary: h)
  case (Object3D mesh slot cs)
  have "fold (traverse callback) cs s = fold callback (concat (map nodes cs)) s" for s
    using Object3D.IH
  proof (induction cs arbitrary: s)
    case Nil
    then show ?case by simp
  next
    case (Cons c cs)
    then show ?case by simp
  qed
  then show ?case by simp
qed

lemma effect_skips_colourless:
  "h a = Some m \<Longrightarrow> color m = None \<Longrightarrow> useEffect_materials level scene h a = Some m"
  by (cases scene) (simp_all add: useEffect_materials_def traverse_fold fold_colourless)

lemma effect_on_loaded_scene:
  assumes "loaded_scene h scene" and "n \<in> set (nodes scene)" and "isMesh n"
  shows "\<exists>a m. materialSlot n = Single a
           \<and> useEffect_materials level (Some scene) h a = Some (fillMaterial level m)"
proof -
  from assms have "coloured_single h n" by (simp add: loaded_scene_def list_all_iff)
  then obtain a m where slot: "materialSlot n = Single a" and m: "h a = Some m"
    and c: "color m \<noteq> None"
    by (auto simp: coloured_single_def split: material_slot.splits option.splits)
  have "fold (applyMaterial level) (nodes scene) h a = Some (fillMaterial level m)"
    using assms(2,3) slot m c by (rule fold_visits)
  then have "useEffect_materials level (Some scene) h a = Some (fillMaterial level m)"
    by (simp add: useEffect_materials_def traverse_fold)
  with slot show ?thesis by blast
qed

subsection \<open>The color and the opacity for a fill level between 0 and 1\<close>

lemma small_integers: "fl 60 = 60" "fl 120 = 120" "fl 180 = 180" "fl 20 = 20" "fl 40 = 40"
  using fl_of_int[of 60] fl_of_int[of 120] fl_of_int[of 180] fl_of_int[of 20] fl_of_int[of 40]
  by simp_all

lemma hue_accuracy:
  assumes "0 \<le> level" and "level \<le> 1"
  shows "120 \<le> fadd 120 (fmul level 60)" and "fadd 120 (fmul level 60) \<le> 180"
    and "\<bar>fadd 120 (fmul level 60) - (120 + level * 60)\<bar> \<le> 1 / 2 ^ 45"
proof -
  define p where "p = fl (level * 60)"
  have "0 \<le> level * 60" and le: "level * 60 \<le> 60" using assms by simp_all
  then have p0: "0 \<le> p" and p1: "p \<le> 60"
    unfolding p_def by (simp_all add: fl_nonneg fl_le_const small_integers)
  have "\<bar>level * 60\<bar> < power_int 2 6" using assms by simp
  then have "\<bar>fl (level * 60) - level * 60\<bar> \<le> power_int 2 (6 - 54)"
    by (rule fl_error_below) simp
  then have 1: "\<bar>p - level * 60\<bar> \<le> 1 / 2 ^ 48"
    unfolding p_def by (simp add: power_int_minus_divide)
  have "120 \<le> 120 + p" "120 + p \<le> 180" using p0 p1 by simp_all
  then show "120 \<le> fadd 120 (fmul level 60)" "fadd 120 (fmul level 60) \<le> 180"
    unfolding fadd_def fmul_def p_def[symmetric]
    by (simp_all add: fl_ge_const fl_le_const small_integers)
  have "\<bar>120 + p\<bar> < power_int 2 8" using p0 p1 by simp
  then have "\<bar>fl (120 + p) - (120 + p)\<bar> \<le> power_int 2 (8 - 54)"
    by (rule fl_error_below) simp
  then have 2: "\<bar>fl (120 + p) - (120 + p)\<bar> \<le> 1 / 2 ^ 46"
    by (simp add: power_int_minus_divide)
  have "(1::rat) / 2 ^ 48 + 1 / 2 ^ 46 \<le> 1 / 2 ^ 45" by simp
  with 1 2 show "\<bar>fadd 120 (fmul level 60) - (120 + level * 60)\<bar> \<le> 1 / 2 ^ 45"
    unfolding fadd_def fmul_def p_def[symmetric] by linarith
qed

lemma lightness_accuracy:
  assumes "0 \<le> level" and "level \<le> 1"
  shows "40 \<le> fadd 40 (fmul level 20)" and "fadd 40 (fmul level 20) \<le> 60"
    and "\<bar>fadd 40 (fmul level 20) - (40 + level * 20)\<bar> \<le> 1 / 2 ^ 47"
proof -
  define p where "p = fl (level * 20)"
  have "0 \<le> level * 20" and le: "level * 20 \<le> 20" using assms by simp_all
  then have p0: "0 \<le> p" and p1: "p \<le> 20"
    unfolding p_def by (simp_all add: fl_nonneg fl_le_const small_integers)
  have "\<bar>level * 20\<bar> < power_int 2 5" using assms by simp
  then have "\<bar>fl (level * 20) - level * 20\<bar> \<le> power_int 2 (5 - 54)"
    by (rule fl_error_below) simp
  then have 1: "\<bar>p - level * 20\<bar> \<le> 1 / 2 ^ 49"
    unfolding p_def by (simp add: power_int_minus_divide)
  have "40 \<le> 40 + p" "40 + p \<le> 60" using p0 p1 by simp_all
  then show "40 \<le> fadd 40 (fmul level 20)" "fadd 40 (fmul level 20) \<le> 60"
    unfolding fadd_def fmul_def p_def[symmetric]
    by (simp_all add: fl_ge_const fl_le_const small_integers)
  have "\<bar>40 + p\<bar> < power_int 2 6" using p0 p1 by simp
  then have "\<bar>fl (40 + p) - (40 + p)\<bar> \<le> power_int 2 (6 - 54)"
    by (rule fl_error_below) simp
  then have 2: "\<bar>fl (40 + p) - (40 + p)\<bar> \<le> 1 / 2 ^ 48"
    by (simp add: power_int_minus_divide)
  have "(1::rat) / 2 ^ 49 + 1 / 2 ^ 48 \<le> 1 / 2 ^ 47" by simp
  with 1 2 show "\<bar>fadd 40 (fmul level 20) - (40 + level * 20)\<bar> \<le> 1 / 2 ^ 47"
    unfolding fadd_def fmul_def p_def[symmetric] by linarith
qed

lemma opacity_accuracy:
  assumes "0 \<le> level" and "level \<le> 1"
  shows "\<bar>fadd (fl (4/5)) (fmul level (fl (1/5))) - (4/5 + level * (1/5))\<bar> \<le> 1 / 2 ^ 52"
proof -
  define c where "c = fl (1/5)"
  define e where "e = fl (4/5)"
  define p where "p = fl (level * c)"
  have c: "\<bar>c - 1/5\<bar> \<le> 1 / 2 ^ 56" unfolding c_def by (rule fifth)
  have num: "(0::rat) \<le> 1 / 5 - 1 / 2 ^ 56" "(1::rat) / 5 + 1 / 2 ^ 56 < 1 / 4" by simp_all
  have c0: "0 \<le> c" and c1: "c < 1 / 4" using c num by linarith+
  have "level * c \<le> 1 * c" using assms c0 by (intro mult_right_mono)
  moreover have "0 \<le> level * c" using assms c0 by simp
  ultimately have "\<bar>level * c\<bar> < power_int 2 (- 2)"
    using c1 by (simp add: power_int_minus_divide)
  then have "\<bar>fl (level * c) - level * c\<bar> \<le> power_int 2 (- 2 - 54)"
    by (rule fl_error_below) simp
  then have 1: "\<bar>p - level * c\<bar> \<le> 1 / 2 ^ 56"
    unfolding p_def by (simp add: power_int_minus_divide)
  have "\<bar>level * c - level * (1/5)\<bar> = \<bar>level\<bar> * \<bar>c - 1/5\<bar>"
    by (simp add: abs_mult[symmetric] algebra_simps)
  also have "\<dots> \<le> 1 * (1 / 2 ^ 56)" using assms c by (intro mult_mono) simp_all
  finally have 2: "\<bar>level * c - level * (1/5)\<bar> \<le> 1 / 2 ^ 56" by simp
  have "\<bar>(4::rat) / 5\<bar> < power_int 2 0" by simp
  then have "\<bar>fl (4/5) - 4/5\<bar> \<le> power_int 2 (0 - 54)" by (rule fl_error_below) simp
  then have 3: "\<bar>e - 4/5\<bar> \<le> 1 / 2 ^ 54" unfolding e_def by (simp add: power_int_minus_divide)
  have lv: "0 \<le> level * (1/5)" "level * (1/5) \<le> 1 / 5" using assms by simp_all
  have "(4::rat) / 5 + 1 / 2 ^ 54 + (1 / 5 + 1 / 2 ^ 56 + 1 / 2 ^ 56) < 2"
    "(0::rat) \<le> 4 / 5 - 1 / 2 ^ 54 - (1 / 2 ^ 56 + 1 / 2 ^ 56)" by simp_all
  with 1 2 3 lv have "\<bar>e + p\<bar> < 2" by linarith
  then have 4: "\<bar>fl (e + p) - (e + p)\<bar> \<le> 1 / 2 ^ 53" by (rule fl_error_small)
  have "(1::rat) / 2 ^ 56 + 1 / 2 ^ 56 + 1 / 2 ^ 54 + 1 / 2 ^ 53 \<le> 1 / 2 ^ 52" by simp
  with 1 2 3 4 show ?thesis
    unfolding fadd_def fmul_def c_def[symmetric] e_def[symmetric] p_def[symmetric] by linarith
qed

lemma fillMaterial_in_range:
  assumes "0 \<le> level" and "level \<le> 1"
  shows "fillMaterial level m =
     \<lparr>color = Some (Hsl (fadd 120 (fmul level 60)) 70 (fadd 40 (fmul level 20))),
      opacity = fadd (fl (4/5)) (fmul level (fl (1/5))),
      transparent = True\<rparr>"
proof -
  have num: "(1::rat) / 10 ^ 6 \<le> 40" "(180::rat) < 10 ^ 21" by simp_all
  have "plain_decimal (fadd 120 (fmul level 60))"
    using hue_accuracy(1,2)[OF assms] num unfolding plain_decimal_def by linarith
  moreover have "plain_decimal (fadd 40 (fmul level 20))"
    using lightness_accuracy(1,2)[OF assms] num unfolding plain_decimal_def by linarith
  ultimately show ?thesis by (simp add: fillMaterial_value Color_hsl_style_def)
qed

text \<open>
  Outside that range the color need not be the one of the formula. At the fill level \<open>-3\<close>,
  which the component passes on at the pledge count \<open>-600\<close>, the style string is
  \<^verbatim>\<open>hsl(-60, 70%, -20%)\<close>, which \<^verbatim>\<open>THREE.Color\<close> does not read: the material is white.
\<close>

lemma material_at_minus_three:
  "fillLevel (- 600) = - 3"
  "fillMaterial (- 3) m =
     \<lparr>color = Some (Rgb 1 1 1), opacity = fadd (fl (4/5)) (fmul (- 3) (fl (1/5))),
      transparent = True\<rparr>"
proof -
  show "fillLevel (- 600) = - 3" by code_simp
  have "fadd 120 (fmul (- 3) 60) = - 60" by code_simp
  then show "fillMaterial (- 3) m =
     \<lparr>color = Some (Rgb 1 1 1), opacity = fadd (fl (4/5)) (fmul (- 3) (fl (1/5))),
      transparent = True\<rparr>"
    by (simp add: fillMaterial_value Color_hsl_style_def plain_decimal_def)
qed

text \<open>
  A mesh whose material has no color, or whose material is an array, is left as it is by
  the guard \<^verbatim>\<open>if (material.color)\<close>; the loader builds no such mesh.
\<close>

lemma colourless_material_is_skipped:
  "useEffect_materials 1 (Some (Object3D True (Single 0) []))
     [0 \<mapsto> \<lparr>color = None, opacity = 1, transparent = False\<rparr>] 0 =
     Some \<lparr>color = None, opacity = 1, transparent = False\<rparr>
   \<and> useEffect_materials 1 (Some (Object3D True (Multi [0]) []))
     [0 \<mapsto> \<lparr>color = Some (Rgb 1 1 1), opacity = 1, transparent = False\<rparr>] 0 =
     Some \<lparr>color = Some (Rgb 1 1 1), opacity = 1, transparent = False\<rparr>"
  by (simp add: useEffect_materials_def applyMaterial_def)

lemma full_level_material:
  "fadd 120 (fmul 1 60) = 180" "fadd 40 (fmul 1 20) = 60" "fadd (fl (4/5)) (fmul 1 (fl (1/5))) = 1"
  by code_simp+

text \<open>
  C6. For every fill level from 0 to 1, which is where the fill ratio of a pledge count
  lies, and on the scene as the loader gives it (every mesh with one material that has a
  color), the effect leaves the material of every mesh of the scene with the color
  \<open>hsl(hue, 70%, lightness%)\<close>, the opacity \<open>opac\<close> and marked as transparent, where
  \<open>hue\<close>, \<open>lightness\<close> and \<open>opac\<close> are the Numbers that the code computes for
  \<open>120 + level * 60\<close>, \<open>40 + level * 20\<close> and \<open>0.8 + level * 0.2\<close>: they are within
  \<open>2\<^sup>-\<^sup>4\<^sup>5\<close>, \<open>2\<^sup>-\<^sup>4\<^sup>7\<close> and \<open>2\<^sup>-\<^sup>5\<^sup>2\<close> of the values of these formulas in exact arithmetic.
\<close>

theorem material_effect_on_loaded_scene:
  assumes "loaded_scene h scene" and "0 \<le> level" and "level \<le> 1"
    and "n \<in> set (nodes scene)" and "isMesh n"
  shows "\<exists>a hue lightness opac.
           materialSlot n = Single a
         \<and> useEffect_materials level (Some scene) h a =
             Some \<lparr>color = Some (Hsl hue 70 lightness), opacity = opac, transparent = True\<rparr>
         \<and> hue = fadd 120 (fmul level 60)
         \<and> \<bar>hue - (120 + level * 60)\<bar> \<le> 1 / 2 ^ 45
         \<and> lightness = fadd 40 (fmul level 20)
         \<and> \<bar>lightness - (40 + level * 20)\<bar> \<le> 1 / 2 ^ 47
         \<and> opac = fadd (fl (4/5)) (fmul level (fl (1/5)))
         \<and> \<bar>opac - (4/5 + level * (1/5))\<bar> \<le> 1 / 2 ^ 52"
proof -
  from effect_on_loaded_scene[OF assms(1,4,5), of level] obtain a m where
    slot: "materialSlot n = Single a"
    and eff: "useEffect_materials level (Some scene) h a = Some (fillMaterial level m)"
    by blast
  have eff': "useEffect_materials level (Some scene) h a =
      Some \<lparr>color = Some (Hsl (fadd 120 (fmul level 60)) 70 (fadd 40 (fmul level 20))),
            opacity = fadd (fl (4/5)) (fmul level (fl (1/5))), transparent = True\<rparr>"
    using eff by (simp only: fillMaterial_in_range[OF assms(2,3)])
  show ?thesis
    by (rule exI[of _ a], rule exI[of _ "fadd 120 (fmul level 60)"],
        rule exI[of _ "fadd 40 (fmul level 20)"],
        rule exI[of _ "fadd (fl (4/5)) (fmul level (fl (1/5)))"])
       (intro conjI slot eff' refl hue_accuracy(3) lightness_accuracy(3) opacity_accuracy assms(2,3))
qed

theorem material_effect_on_loaded_scene_witness:
  "loaded_scene [0 \<mapsto> \<lparr>color = Some (Rgb 1 1 1), opacity = 1, transparent = False\<rparr>]
     (Object3D False NoMaterial [Object3D True (Single 0) [], Object3D True (Single 0) []])
   \<and> (0 :: rat) \<le> 1 \<and> (1 :: rat) \<le> 1
   \<and> Object3D True (Single 0) [] \<in>
       set (nodes (Object3D False NoMaterial [Object3D True (Single 0) [], Object3D True (Single 0) []]))
   \<and> isMesh (Object3D True (Single 0) [])
   \<and> useEffect_materials 1
       (Some (Object3D False NoMaterial [Object3D True (Single 0) [], Object3D True (Single 0) []]))
       [0 \<mapsto> \<lparr>color = Some (Rgb 1 1 1), opacity = 1, transparent = False\<rparr>] 0 =
     Some \<lparr>color = Some (Hsl 180 70 60), opacity = 1, transparent = True\<rparr>"
proof -
  have ld: "loaded_scene [0 \<mapsto> \<lparr>color = Some (Rgb 1 1 1), opacity = 1, transparent = False\<rparr>]
     (Object3D False NoMaterial [Object3D True (Single 0) [], Object3D True (Single 0) []])"
    by (simp add: loaded_scene_def coloured_single_def)
  have mem: "Object3D True (Single 0) [] \<in>
     set (nodes (Object3D False NoMaterial [Object3D True (Single 0) [], Object3D True (Single 0) []]))"
    by simp
  have mesh: "isMesh (Object3D True (Single 0) [])" by simp
  have r: "(0 :: rat) \<le> 1" "(1 :: rat) \<le> 1" by simp_all
  from material_effect_on_loaded_scene[OF ld r mem mesh]
  have "useEffect_materials 1
       (Some (Object3D False NoMaterial [Object3D True (Single 0) [], Object3D True (Single 0) []]))
       [0 \<mapsto> \<lparr>color = Some (Rgb 1 1 1), opacity = 1, transparent = False\<rparr>] 0 =
     Some \<lparr>color = Some (Hsl 180 70 60), opacity = 1, transparent = True\<rparr>"
    by (elim exE conjE) (simp add: full_level_material)
  with ld r mem mesh show ?thesis by (intro conjI)
qed

end
